theory Spec2Isabelle
  imports Main "HOL-Library.Sublist"
begin

section \<open>JavaScript strings and regular expressions\<close>

text \<open>
  File contents, file names and messages are JavaScript strings. They are modelled as
  \<^typ>\<open>string\<close>: one \<^typ>\<open>char\<close> per UTF-16 code unit, for code units below 256.

  Every regular expression of the two analyzers is built from literal text, the class
  \<^verbatim>\<open>\s\<close> under \<^verbatim>\<open>*\<close> and \<^verbatim>\<open>+\<close>, alternation, an
  optional group and the end anchor. \<open>rx\<close> is that fragment; \<open>m r s\<close> lists the
  remainders of \<open>s\<close> after each way \<open>r\<close> can match a prefix of \<open>s\<close>, in the order in
  which the backtracking matcher of JavaScript tries them (greedy quantifiers first, the left
  alternative first). The match the engine reports at a position is the head of that list.
\<close>

definition is_space :: "char \<Rightarrow> bool" where
  "is_space c = (c \<in> set [CHR 0x09, CHR 0x0A, CHR 0x0B, CHR 0x0C, CHR 0x0D, CHR '' '', CHR 0xA0])"

text \<open>
  Matching under the \<^verbatim>\<open>i\<close> flag, for a pattern character \<open>p\<close> of the ASCII range:
  a letter matches itself in either case, any other character only itself.
\<close>

definition lower_letters :: string where
  "lower_letters = ''abcdefghijklmnopqrstuvwxyz''"

definition upper_letters :: string where
  "upper_letters = ''ABCDEFGHIJKLMNOPQRSTUVWXYZ''"

definition ci_eq :: "char \<Rightarrow> char \<Rightarrow> bool" where
  "ci_eq p c =
     (c = p \<or> (p, c) \<in> set (zip lower_letters upper_letters)
            \<or> (c, p) \<in> set (zip lower_letters upper_letters))"

fun ci_prefix :: "string \<Rightarrow> string \<Rightarrow> bool" where
  "ci_prefix [] s = True"
| "ci_prefix (p # ps) [] = False"
| "ci_prefix (p # ps) (c # cs) = (ci_eq p c \<and> ci_prefix ps cs)"

datatype rx =
    Lit string
  | LitCi string
  | SpaceStar
  | SpacePlus
  | Seq rx rx
  | Alt rx rx
  | Opt rx
  | Eos

fun greedy_star :: "(char \<Rightarrow> bool) \<Rightarrow> string \<Rightarrow> string list" where
  "greedy_star p [] = [[]]"
| "greedy_star p (c # cs) = (if p c then greedy_star p cs @ [c # cs] else [c # cs])"

fun greedy_plus :: "(char \<Rightarrow> bool) \<Rightarrow> string \<Rightarrow> string list" where
  "greedy_plus p [] = []"
| "greedy_plus p (c # cs) = (if p c then greedy_star p cs else [])"

primrec m :: "rx \<Rightarrow> string \<Rightarrow> string list" where
  "m (Lit l) s = (if prefix l s then [drop (length l) s] else [])"
| "m (LitCi l) s = (if ci_prefix l s then [drop (length l) s] else [])"
| "m SpaceStar s = greedy_star is_space s"
| "m SpacePlus s = greedy_plus is_space s"
| "m (Seq a b) s = concat (map (m b) (m a s))"
| "m (Alt a b) s = m a s @ m b s"
| "m (Opt a) s = m a s @ [s]"
| "m Eos s = (if s = [] then [[]] else [])"

text \<open>\<open>seq\<close> writes a concatenation of several pieces.\<close>

fun seq :: "rx list \<Rightarrow> rx" where
  "seq [] = Lit []"
| "seq [r] = r"
| "seq (r # rs) = Seq r (seq rs)"

text \<open>
  \<^verbatim>\<open>String.prototype.includes\<close>: some suffix of \<open>s\<close> starts with \<open>l\<close>.
\<close>

fun js_includes :: "string \<Rightarrow> string \<Rightarrow> bool" where
  "js_includes [] l = (l = [])"
| "js_includes (c # cs) l = (prefix l (c # cs) \<or> js_includes cs l)"

text \<open>
  \<^verbatim>\<open>String.prototype.search\<close>: the index of the leftmost position at which the
  pattern matches, \<open>-1\<close> when there is none. \<^verbatim>\<open>search\<close> always starts at index 0,
  whatever the \<^verbatim>\<open>lastIndex\<close> of the pattern is.
\<close>

fun search_from :: "rx \<Rightarrow> nat \<Rightarrow> string \<Rightarrow> int" where
  "search_from r i [] = (if m r [] = [] then - 1 else int i)"
| "search_from r i (c # cs) = (if m r (c # cs) = [] then search_from r (Suc i) cs else int i)"

definition js_search :: "string \<Rightarrow> rx \<Rightarrow> int" where
  "js_search s r = search_from r 0 s"

text \<open>
  \<^verbatim>\<open>RegExp.prototype.test\<close> on a pattern object that has just been created
  (\<^verbatim>\<open>lastIndex\<close> is 0): every pattern of the analyzers is a literal evaluated anew
  in each call of the method that uses it, and is tested at most once.
\<close>

definition js_test :: "rx \<Rightarrow> string \<Rightarrow> bool" where
  "js_test r s = (search_from r 0 s \<noteq> - 1)"

text \<open>
  \<^verbatim>\<open>String.prototype.match\<close> with a global pattern: the matched texts from left to
  right, each search resuming where the previous match ended (one code unit further after
  an empty match), and \<^verbatim>\<open>null\<close> when there is no match. \<open>scan r k s\<close> has \<open>k\<close>
  code units of the previous match still to pass over.
\<close>

fun scan :: "rx \<Rightarrow> nat \<Rightarrow> string \<Rightarrow> string list" where
  "scan r k [] = (if k = 0 \<and> m r [] \<noteq> [] then [[]] else [])"
| "scan r (Suc k) (c # cs) = scan r k cs"
| "scan r 0 (c # cs) =
     (case m r (c # cs) of
        [] \<Rightarrow> scan r 0 cs
      | rest # _ \<Rightarrow>
          (let n = length (c # cs) - length rest
           in take n (c # cs) # scan r (n - 1) cs))"

definition js_match_g :: "string \<Rightarrow> rx \<Rightarrow> string list option" where
  "js_match_g s r = (case scan r 0 s of [] \<Rightarrow> None | x # xs \<Rightarrow> Some (x # xs))"

text \<open>
  \<^verbatim>\<open>String.prototype.match\<close> with a pattern that is not global, used for its truth
  value only: an array when the pattern matches somewhere, \<^verbatim>\<open>null\<close> otherwise.
\<close>

definition js_match_truthy :: "string \<Rightarrow> rx \<Rightarrow> bool" where
  "js_match_truthy s r = (search_from r 0 s \<noteq> - 1)"

section \<open>Data model\<close>

text \<open>
  An issue and a recommendation are object literals; a field that a literal leaves out is
  \<open>None\<close>. The fields are \<^verbatim>\<open>type\<close>, \<^verbatim>\<open>severity\<close>,
  \<^verbatim>\<open>file\<close>, \<^verbatim>\<open>message\<close>, \<^verbatim>\<open>pattern\<close>, \<^verbatim>\<open>count\<close>
  and \<^verbatim>\<open>fix\<close> of an issue, written with the prefix \<open>i_\<close>, and
  \<^verbatim>\<open>file\<close>, \<^verbatim>\<open>priority\<close>, \<^verbatim>\<open>message\<close> and
  \<^verbatim>\<open>action\<close> of a recommendation, written with the prefix \<open>r_\<close>. Severities
  are texts, as in the source.
\<close>

record issue =
  i_type :: string
  i_severity :: string
  i_file :: string
  i_message :: string
  i_pattern :: "string option"
  i_count :: "nat option"
  i_fix :: "string option"

record recommendation =
  r_file :: "string option"
  r_priority :: "string option"
  r_message :: string
  r_action :: "string option"

record FileStats =
  total :: nat
  analyzed :: nat
  withIssues :: nat

text \<open>
  The options object of the command line, fields written with the prefix \<open>o_\<close>. The
  simple variant has no \<^verbatim>\<open>html\<close> and \<^verbatim>\<open>output\<close> options: there the two
  fields keep their initial values.
\<close>

record cli_options =
  o_verbose :: bool
  o_json :: bool
  o_html :: bool
  o_output :: "string option"
  o_help :: bool

text \<open>
  What the file system holds at a path: a file with its text (\<open>None\<close> when
  \<^verbatim>\<open>readFileSync\<close> throws: no permission, a link to a directory, a file removed
  meanwhile), or a directory with its entries in listing order (\<open>None\<close> when
  \<^verbatim>\<open>readdirSync\<close> throws). An entry is a directory entry exactly when
  \<^verbatim>\<open>isDirectory()\<close> holds of it.
\<close>

datatype node =
    File "string option"
  | Dir "(string \<times> node) list option"

fun isDirectory :: "node \<Rightarrow> bool" where
  "isDirectory (Dir _) = True"
| "isDirectory (File _) = False"

text \<open>The lines written to the error stream, as values.\<close>

datatype log_line =
    DirReadError string
  | FileReadError string
  | PathDoesNotExist string
  | AnalysisFailed

text \<open>
  The analyzer object. \<open>console_error\<close> is the error stream of the process, which the
  methods write to with \<^verbatim>\<open>console.error\<close>; what they print to the standard output
  is not modelled.
\<close>

record RouteAnalyzer =
  basePath :: string
  options :: cli_options
  issues :: "issue list"
  recommendations :: "recommendation list"
  fileStats :: FileStats
  console_error :: "log_line list"

text \<open>
  The per-file summary of the extended variant, without its \<^verbatim>\<open>componentCount\<close> and
  \<^verbatim>\<open>imports\<close> fields, which nothing in the analysis reads.
\<close>

record RouteConfig =
  rc_file :: string
  hasActivityContext :: bool
  hasBlockedNavigation :: bool
  hasMultipleQueryClients :: bool
  hasUnmemoizedRoutes :: bool
  hasReactRouter :: bool
  hasShellComponents :: bool

text \<open>
  \<open>dependencies\<close> keeps, for each library of the table of \<^verbatim>\<open>mapDependencies\<close>, its
  \<^verbatim>\<open>detected\<close> flag.
\<close>

record RouteDebugger = RouteAnalyzer +
  dependencies :: "(string \<times> bool) list"
  routeConfigs :: "RouteConfig list"

text \<open>
  \<^verbatim>\<open>path.join(dir, name)\<close> with paths kept relative to the base path: the base
  path itself is the empty string, so the joined path is what
  \<^verbatim>\<open>path.relative(this.basePath, fullPath)\<close> returns.
\<close>

definition path_join :: "string \<Rightarrow> string \<Rightarrow> string" where
  "path_join dir name = (if dir = [] then name else dir @ ''/'' @ name)"

section \<open>The patterns of the rules\<close>

definition routesMapPattern :: rx where
  "routesMapPattern =
     seq [Lit ''routes.map'', SpaceStar, Lit ''('', SpaceStar, Lit ''('', SpaceStar, Lit ''{'',
          SpaceStar, Lit ''path'', SpaceStar, Lit '','', SpaceStar, Lit ''Component'', SpaceStar,
          Lit ''}'', SpaceStar, Lit '')'']"

definition queryClientPattern :: rx where
  "queryClientPattern = seq [Lit ''new'', SpacePlus, Lit ''QueryClient'', SpaceStar, Lit ''('']"

definition contextPattern :: rx where
  "contextPattern = Alt (Lit ''createContext'') (Alt (Lit ''useContext'') (Lit ''.Provider''))"

definition routesPattern :: rx where
  "routesPattern = Lit ''<Routes>''"

definition expensivePattern :: rx where
  "expensivePattern =
     Alt (Lit ''.map('') (Alt (Lit ''.filter('') (Alt (Lit ''.reduce('') (Lit ''.forEach('')))"

definition asyncWrapperPattern :: rx where
  "asyncWrapperPattern = Lit ''AsyncWrapper''"

definition consoleLogPattern :: rx where
  "consoleLogPattern = Lit ''console.log''"

definition debuggerPattern :: rx where
  "debuggerPattern = Lit ''debugger''"

definition jsonClonePattern :: rx where
  "jsonClonePattern = Lit ''JSON.parse(JSON.stringify''"

section \<open>The simple variant: RouteAnalyzer\<close>

text \<open>
  Each rule method receives the file text, the relative path and the per-file issue array,
  appends to that array and, in this variant, to \<^verbatim>\<open>this.recommendations\<close>. The
  model passes both lists through: \<open>(fileIssues, recommendations)\<close>.
\<close>

type_synonym ra_acc = "issue list \<times> recommendation list"

definition file_rec :: "string \<Rightarrow> string \<Rightarrow> recommendation" where
  "file_rec filePath msg =
     \<lparr>r_file = Some filePath, r_priority = None, r_message = msg, r_action = None\<rparr>"

definition ra_checkDynamicRouteGeneration :: "string \<Rightarrow> string \<Rightarrow> ra_acc \<Rightarrow> ra_acc" where
  "ra_checkDynamicRouteGeneration content filePath acc =
     (case acc of (fileIssues, recs) \<Rightarrow>
        (case js_match_g content routesMapPattern of
           None \<Rightarrow> (fileIssues, recs)
         | Some matches \<Rightarrow>
             (fileIssues @
                [\<lparr>i_type = ''dynamic-route-generation'', i_severity = ''high'', i_file = filePath,
                  i_message = ''Dynamic route generation detected - may cause unmounts'',
                  i_pattern = (case matches of [] \<Rightarrow> None | x # _ \<Rightarrow> Some x),
                  i_count = None, i_fix = None\<rparr>],
              if \<not> js_includes content ''useMemo''
              then recs @ [file_rec filePath ''Wrap routes array in useMemo to prevent recreation'']
              else recs)))"

definition ra_checkQueryClientCreation :: "string \<Rightarrow> string \<Rightarrow> ra_acc \<Rightarrow> ra_acc" where
  "ra_checkQueryClientCreation content filePath acc =
     (case acc of (fileIssues, recs) \<Rightarrow>
        (case js_match_g content queryClientPattern of
           None \<Rightarrow> (fileIssues, recs)
         | Some matches \<Rightarrow>
             (fileIssues @
                [\<lparr>i_type = ''query-client-creation'', i_severity = ''medium'', i_file = filePath,
                  i_message = ''QueryClient created in route file - may cause state loss'',
                  i_pattern = None, i_count = Some (length matches), i_fix = None\<rparr>],
              recs @ [file_rec filePath
                        ''Move QueryClient creation to module level or share instance''])))"

definition ra_checkContextPlacement :: "string \<Rightarrow> string \<Rightarrow> ra_acc \<Rightarrow> ra_acc" where
  "ra_checkContextPlacement content filePath acc =
     (case acc of (fileIssues, recs) \<Rightarrow>
        (let hasContext = js_test contextPattern content;
             hasRoutes = js_test routesPattern content
         in if hasContext \<and> hasRoutes then
              (let contextIndex = js_search content contextPattern;
                   routesIndex = js_search content routesPattern
               in if contextIndex < routesIndex \<and> contextIndex \<noteq> - 1 \<and> routesIndex \<noteq> - 1 then
                    (fileIssues @
                       [\<lparr>i_type = ''context-placement'', i_severity = ''high'', i_file = filePath,
                         i_message = ''Context may be placed above Routes - could cause unmounts'',
                         i_pattern = None, i_count = None, i_fix = None\<rparr>],
                     recs @ [file_rec filePath
                        ''Move context provider below shell routing but above module routes''])
                  else (fileIssues, recs))
            else (fileIssues, recs)))"

definition ra_checkBlockedNavigation :: "string \<Rightarrow> string \<Rightarrow> ra_acc \<Rightarrow> ra_acc" where
  "ra_checkBlockedNavigation content filePath acc =
     (case acc of (fileIssues, recs) \<Rightarrow>
        if js_includes content ''BlockedNavigation'' then
          (fileIssues @
             [\<lparr>i_type = ''blocked-navigation'', i_severity = ''medium'', i_file = filePath,
               i_message = ''BlockedNavigation component found - may interfere with routing'',
               i_pattern = None, i_count = None, i_fix = None\<rparr>],
           recs @ [file_rec filePath ''Review BlockedNavigation placement and when conditions''])
        else (fileIssues, recs))"

definition ra_checkActivityContext :: "string \<Rightarrow> string \<Rightarrow> ra_acc \<Rightarrow> ra_acc" where
  "ra_checkActivityContext content filePath acc =
     (case acc of (fileIssues, recs) \<Rightarrow>
        if js_includes content ''ActivityContext'' then
          (fileIssues @
             [\<lparr>i_type = ''activity-context'', i_severity = ''medium'', i_file = filePath,
               i_message = ''ActivityContext found - may track navigation changes'',
               i_pattern = None, i_count = None, i_fix = None\<rparr>],
           recs @ [file_rec filePath
                     ''Review ActivityContext usage for potential navigation interference''])
        else (fileIssues, recs))"

definition ra_checkMemoization :: "string \<Rightarrow> string \<Rightarrow> ra_acc \<Rightarrow> ra_acc" where
  "ra_checkMemoization content filePath acc =
     (case acc of (fileIssues, recs) \<Rightarrow>
        (let hasExpensiveCalculations = js_test expensivePattern content;
             hasUseMemo = js_includes content ''useMemo'';
             hasUseCallback = js_includes content ''useCallback''
         in if hasExpensiveCalculations \<and> \<not> hasUseMemo \<and> \<not> hasUseCallback then
              (fileIssues @
                 [\<lparr>i_type = ''missing-memoization'', i_severity = ''low'', i_file = filePath,
                   i_message = ''Expensive calculations detected without memoization'',
                   i_pattern = None, i_count = None, i_fix = None\<rparr>],
               recs @ [file_rec filePath
                  ''Consider memoizing expensive calculations with useMemo/useCallback''])
            else (fileIssues, recs)))"

definition ra_checkAsyncWrapper :: "string \<Rightarrow> string \<Rightarrow> ra_acc \<Rightarrow> ra_acc" where
  "ra_checkAsyncWrapper content filePath acc =
     (case acc of (fileIssues, recs) \<Rightarrow>
        if js_includes content ''AsyncWrapper'' then
          (case js_match_g content asyncWrapperPattern of
             None \<Rightarrow> (fileIssues, recs)
           | Some matches \<Rightarrow>
               if length matches > 1 then
                 (fileIssues @
                    [\<lparr>i_type = ''multiple-async-wrappers'', i_severity = ''medium'',
                      i_file = filePath,
                      i_message = ''Multiple AsyncWrapper instances detected'',
                      i_pattern = None, i_count = Some (length matches), i_fix = None\<rparr>],
                  recs)
               else (fileIssues, recs))
        else (fileIssues, recs))"

definition ra_checkShellPatterns :: "string \<Rightarrow> string \<Rightarrow> ra_acc \<Rightarrow> ra_acc" where
  "ra_checkShellPatterns content filePath acc =
     (case acc of (fileIssues, recs) \<Rightarrow>
        if js_includes content ''useModulePathResolver'' then
          (if \<not> js_includes content ''useMemo'' \<or> \<not> js_includes content ''useCallback'' then
             (fileIssues @
                [\<lparr>i_type = ''unmemoized-shell-hooks'', i_severity = ''medium'', i_file = filePath,
                  i_message = ''Shell hooks used without proper memoization'',
                  i_pattern = None, i_count = None, i_fix = None\<rparr>],
              recs)
           else (fileIssues, recs))
        else (fileIssues, recs))"

definition ra_patterns :: "(rx \<times> string) list" where
  "ra_patterns =
     [(consoleLogPattern, ''Console statements found - remove for production''),
      (debuggerPattern, ''Debugger statements found - remove for production''),
      (jsonClonePattern, ''Deep cloning with JSON methods - consider alternatives'')]"

definition ra_checkPerformancePatterns :: "string \<Rightarrow> string \<Rightarrow> ra_acc \<Rightarrow> ra_acc" where
  "ra_checkPerformancePatterns content filePath acc =
     (case acc of (fileIssues, recs) \<Rightarrow>
        (foldl (\<lambda>fi (pat, msg).
                  if js_test pat content then
                    fi @ [\<lparr>i_type = ''performance-issue'', i_severity = ''low'', i_file = filePath,
                           i_message = msg, i_pattern = None, i_count = None, i_fix = None\<rparr>]
                  else fi)
               fileIssues ra_patterns,
         recs))"

text \<open>The nine rules in the order in which \<^verbatim>\<open>analyzeRouteFile\<close> calls them.\<close>

definition ra_rules :: "string \<Rightarrow> string \<Rightarrow> ra_acc \<Rightarrow> ra_acc" where
  "ra_rules content relativePath acc =
     ra_checkPerformancePatterns content relativePath
       (ra_checkShellPatterns content relativePath
         (ra_checkAsyncWrapper content relativePath
           (ra_checkMemoization content relativePath
             (ra_checkActivityContext content relativePath
               (ra_checkBlockedNavigation content relativePath
                 (ra_checkContextPlacement content relativePath
                   (ra_checkQueryClientCreation content relativePath
                     (ra_checkDynamicRouteGeneration content relativePath acc))))))))"


section \<open>The extended variant: RouteDebugger\<close>

text \<open>
  The rule methods of this variant append to the per-file issue array only; each issue
  carries a \<^verbatim>\<open>fix\<close> text, and \<^verbatim>\<open>this.recommendations\<close> is left alone.
\<close>

definition rd_checkDynamicRouteGeneration :: "string \<Rightarrow> string \<Rightarrow> issue list \<Rightarrow> issue list" where
  "rd_checkDynamicRouteGeneration content filePath fileIssues =
     (case js_match_g content routesMapPattern of
        None \<Rightarrow> fileIssues
      | Some matches \<Rightarrow>
          fileIssues @
            [\<lparr>i_type = ''dynamic-route-generation'', i_severity = ''high'', i_file = filePath,
              i_message = ''Dynamic route generation detected - may cause unmounts'',
              i_pattern = (case matches of [] \<Rightarrow> None | x # _ \<Rightarrow> Some x),
              i_count = None,
              i_fix = Some ''Wrap routes array in useMemo to prevent recreation''\<rparr>])"

definition rd_checkQueryClientCreation :: "string \<Rightarrow> string \<Rightarrow> issue list \<Rightarrow> issue list" where
  "rd_checkQueryClientCreation content filePath fileIssues =
     (case js_match_g content queryClientPattern of
        None \<Rightarrow> fileIssues
      | Some matches \<Rightarrow>
          fileIssues @
            [\<lparr>i_type = ''query-client-creation'', i_severity = ''medium'', i_file = filePath,
              i_message = ''QueryClient created in route file - may cause state loss'',
              i_pattern = None, i_count = Some (length matches),
              i_fix = Some ''Move QueryClient creation to module level or share instance''\<rparr>])"

definition rd_checkContextPlacement :: "string \<Rightarrow> string \<Rightarrow> issue list \<Rightarrow> issue list" where
  "rd_checkContextPlacement content filePath fileIssues =
     (let hasContext = js_test contextPattern content;
          hasRoutes = js_test routesPattern content
      in if hasContext \<and> hasRoutes then
           (let contextIndex = js_search content contextPattern;
                routesIndex = js_search content routesPattern
            in if contextIndex < routesIndex \<and> contextIndex \<noteq> - 1 \<and> routesIndex \<noteq> - 1 then
                 fileIssues @
                   [\<lparr>i_type = ''context-placement'', i_severity = ''high'', i_file = filePath,
                     i_message = ''Context may be placed above Routes - could cause unmounts'',
                     i_pattern = None, i_count = None,
                     i_fix = Some
                       ''Move context provider below shell routing but above module routes''\<rparr>]
               else fileIssues)
         else fileIssues)"

definition rd_checkBlockedNavigation :: "string \<Rightarrow> string \<Rightarrow> issue list \<Rightarrow> issue list" where
  "rd_checkBlockedNavigation content filePath fileIssues =
     (if js_includes content ''BlockedNavigation'' then
        fileIssues @
          [\<lparr>i_type = ''blocked-navigation'', i_severity = ''medium'', i_file = filePath,
            i_message = ''BlockedNavigation component found - may interfere with routing'',
            i_pattern = None, i_count = None,
            i_fix = Some ''Review BlockedNavigation placement and when conditions''\<rparr>]
      else fileIssues)"

definition rd_checkActivityContext :: "string \<Rightarrow> string \<Rightarrow> issue list \<Rightarrow> issue list" where
  "rd_checkActivityContext content filePath fileIssues =
     (if js_includes content ''ActivityContext'' then
        fileIssues @
          [\<lparr>i_type = ''activity-context'', i_severity = ''medium'', i_file = filePath,
            i_message = ''ActivityContext found - may track navigation changes'',
            i_pattern = None, i_count = None,
            i_fix = Some
              ''Review ActivityContext usage for potential navigation interference''\<rparr>]
      else fileIssues)"

definition rd_checkMemoization :: "string \<Rightarrow> string \<Rightarrow> issue list \<Rightarrow> issue list" where
  "rd_checkMemoization content filePath fileIssues =
     (let hasExpensiveCalculations = js_test expensivePattern content;
          hasUseMemo = js_includes content ''useMemo'';
          hasUseCallback = js_includes content ''useCallback''
      in if hasExpensiveCalculations \<and> \<not> hasUseMemo \<and> \<not> hasUseCallback then
           fileIssues @
             [\<lparr>i_type = ''missing-memoization'', i_severity = ''low'', i_file = filePath,
               i_message = ''Expensive calculations detected without memoization'',
               i_pattern = None, i_count = None,
               i_fix = Some
                 ''Consider memoizing expensive calculations with useMemo/useCallback''\<rparr>]
         else fileIssues)"

definition rd_checkAsyncWrapper :: "string \<Rightarrow> string \<Rightarrow> issue list \<Rightarrow> issue list" where
  "rd_checkAsyncWrapper content filePath fileIssues =
     (if js_includes content ''AsyncWrapper'' then
        (case js_match_g content asyncWrapperPattern of
           None \<Rightarrow> fileIssues
         | Some matches \<Rightarrow>
             if length matches > 1 then
               fileIssues @
                 [\<lparr>i_type = ''multiple-async-wrappers'', i_severity = ''medium'',
                   i_file = filePath,
                   i_message = ''Multiple AsyncWrapper instances detected'',
                   i_pattern = None, i_count = Some (length matches),
                   i_fix = Some ''Consolidate AsyncWrapper usage to prevent conflicts''\<rparr>]
             else fileIssues)
      else fileIssues)"

definition rd_checkShellPatterns :: "string \<Rightarrow> string \<Rightarrow> issue list \<Rightarrow> issue list" where
  "rd_checkShellPatterns content filePath fileIssues =
     (if js_includes content ''useModulePathResolver'' then
        (if \<not> js_includes content ''useMemo'' \<or> \<not> js_includes content ''useCallback'' then
           fileIssues @
             [\<lparr>i_type = ''unmemoized-shell-hooks'', i_severity = ''medium'', i_file = filePath,
               i_message = ''Shell hooks used without proper memoization'',
               i_pattern = None, i_count = None,
               i_fix = Some ''Wrap shell hooks with useMemo/useCallback for stability''\<rparr>]
         else fileIssues)
      else fileIssues)"

definition rd_patterns :: "(rx \<times> string \<times> string) list" where
  "rd_patterns =
     [(consoleLogPattern, ''Console statements found - remove for production'', ''low''),
      (debuggerPattern, ''Debugger statements found - remove for production'', ''low''),
      (jsonClonePattern, ''Deep cloning with JSON methods - consider alternatives'', ''low'')]"

definition rd_checkPerformancePatterns :: "string \<Rightarrow> string \<Rightarrow> issue list \<Rightarrow> issue list" where
  "rd_checkPerformancePatterns content filePath fileIssues =
     foldl (\<lambda>fi (pat, msg, sev).
              if js_test pat content then
                fi @ [\<lparr>i_type = ''performance-issue'', i_severity = sev, i_file = filePath,
                       i_message = msg, i_pattern = None, i_count = None,
                       i_fix = Some ''Optimize performance by addressing this pattern''\<rparr>]
              else fi)
           fileIssues rd_patterns"

definition rd_rules :: "string \<Rightarrow> string \<Rightarrow> issue list \<Rightarrow> issue list" where
  "rd_rules content relativePath fileIssues =
     rd_checkPerformancePatterns content relativePath
       (rd_checkShellPatterns content relativePath
         (rd_checkAsyncWrapper content relativePath
           (rd_checkMemoization content relativePath
             (rd_checkActivityContext content relativePath
               (rd_checkBlockedNavigation content relativePath
                 (rd_checkContextPlacement content relativePath
                   (rd_checkQueryClientCreation content relativePath
                     (rd_checkDynamicRouteGeneration content relativePath fileIssues))))))))"


section \<open>The file walker and the file analyzer\<close>

definition skipDirs :: "string list" where
  "skipDirs = [''node_modules'', ''.git'', ''dist'', ''build'', ''coverage'', ''.next'']"

definition shouldSkipDirectory :: "string \<Rightarrow> bool" where
  "shouldSkipDirectory dirName = (dirName \<in> set skipDirs)"

definition routeNamePattern :: rx where
  "routeNamePattern = Alt (LitCi ''route'') (LitCi ''Route'')"

definition routesSuffixPattern :: rx where
  "routesSuffixPattern = seq [Lit ''Routes.ts'', Opt (Lit ''x''), Eos]"

definition extensionPattern :: rx where
  "extensionPattern =
     seq [Lit ''.'', Alt (Seq (Lit ''ts'') (Opt (Lit ''x''))) (Seq (Lit ''js'') (Opt (Lit ''x''))), Eos]"

definition isRelevantFile :: "string \<Rightarrow> bool" where
  "isRelevantFile fileName =
     ((js_match_truthy fileName routeNamePattern \<or> js_match_truthy fileName routesSuffixPattern)
      \<and> js_match_truthy fileName extensionPattern)"

subsection \<open>RouteAnalyzer\<close>

definition ra_analyzeRouteFile :: "RouteAnalyzer \<Rightarrow> string \<Rightarrow> node \<Rightarrow> RouteAnalyzer" where
  "ra_analyzeRouteFile st relativePath n =
     (case n of
        File (Some content) \<Rightarrow>
          (let st1 = st\<lparr>fileStats := (fileStats st)\<lparr>analyzed := analyzed (fileStats st) + 1\<rparr>\<rparr>;
               (fileIssues, recs) = ra_rules content relativePath ([], recommendations st1);
               st2 = st1\<lparr>recommendations := recs, issues := issues st1 @ fileIssues\<rparr>
           in if length fileIssues > 0
              then st2\<lparr>fileStats := (fileStats st2)\<lparr>withIssues := withIssues (fileStats st2) + 1\<rparr>\<rparr>
              else st2)
      | _ \<Rightarrow> st\<lparr>console_error := console_error st @ [FileReadError relativePath]\<rparr>)"

fun ra_findRouteFiles :: "RouteAnalyzer \<Rightarrow> string \<Rightarrow> node \<Rightarrow> RouteAnalyzer"
  and ra_entries :: "RouteAnalyzer \<Rightarrow> string \<Rightarrow> (string \<times> node) list \<Rightarrow> RouteAnalyzer"
where
  "ra_findRouteFiles st dir (Dir (Some files)) = ra_entries st dir files"
| "ra_findRouteFiles st dir (Dir None) = st\<lparr>console_error := console_error st @ [DirReadError dir]\<rparr>"
| "ra_findRouteFiles st dir (File c) = st\<lparr>console_error := console_error st @ [DirReadError dir]\<rparr>"
| "ra_entries st dir [] = st"
| "ra_entries st dir ((name, n) # files) =
     ra_entries
       (if isDirectory n \<and> \<not> shouldSkipDirectory name then
          ra_findRouteFiles st (path_join dir name) n
        else if isRelevantFile name then
          ra_analyzeRouteFile
            (st\<lparr>fileStats := (fileStats st)\<lparr>total := total (fileStats st) + 1\<rparr>\<rparr>)
            (path_join dir name) n
        else st)
       dir files"

subsection \<open>RouteDebugger\<close>

definition newQueryClientPattern :: rx where
  "newQueryClientPattern = seq [Lit ''new'', SpacePlus, Lit ''QueryClient'']"

definition reactRouterPattern :: rx where
  "reactRouterPattern = Alt (Lit ''react-router'') (Alt (Lit ''useNavigate'') (Lit ''useLocation''))"

definition shellPattern :: rx where
  "shellPattern = Alt (Lit ''Shell'') (Alt (Lit ''AsyncWrapper'') (Lit ''useModulePathResolver''))"

definition extractRouteConfig :: "string \<Rightarrow> string \<Rightarrow> RouteConfig" where
  "extractRouteConfig content filePath =
     \<lparr>rc_file = filePath,
      hasActivityContext = js_includes content ''ActivityContext'',
      hasBlockedNavigation = js_includes content ''BlockedNavigation'',
      hasMultipleQueryClients =
        (length (case js_match_g content newQueryClientPattern of None \<Rightarrow> [] | Some ms \<Rightarrow> ms) > 1),
      hasUnmemoizedRoutes = (js_includes content ''routes.map'' \<and> \<not> js_includes content ''useMemo''),
      hasReactRouter = js_test reactRouterPattern content,
      hasShellComponents = js_test shellPattern content\<rparr>"

definition rd_analyzeRouteFile :: "RouteDebugger \<Rightarrow> string \<Rightarrow> node \<Rightarrow> RouteDebugger" where
  "rd_analyzeRouteFile st relativePath n =
     (case n of
        File (Some content) \<Rightarrow>
          (let st1 = st\<lparr>fileStats := (fileStats st)\<lparr>analyzed := analyzed (fileStats st) + 1\<rparr>\<rparr>;
               routeConfig = extractRouteConfig content relativePath;
               fileIssues = rd_rules content relativePath [];
               st2 = st1\<lparr>issues := issues st1 @ fileIssues,
                         routeConfigs := routeConfigs st1 @ [routeConfig]\<rparr>
           in if length fileIssues > 0
              then st2\<lparr>fileStats := (fileStats st2)\<lparr>withIssues := withIssues (fileStats st2) + 1\<rparr>\<rparr>
              else st2)
      | _ \<Rightarrow> st\<lparr>console_error := console_error st @ [FileReadError relativePath]\<rparr>)"

fun rd_findRouteFiles :: "RouteDebugger \<Rightarrow> string \<Rightarrow> node \<Rightarrow> RouteDebugger"
  and rd_entries :: "RouteDebugger \<Rightarrow> string \<Rightarrow> (string \<times> node) list \<Rightarrow> RouteDebugger"
where
  "rd_findRouteFiles st dir (Dir (Some files)) = rd_entries st dir files"
| "rd_findRouteFiles st dir (Dir None) = st\<lparr>console_error := console_error st @ [DirReadError dir]\<rparr>"
| "rd_findRouteFiles st dir (File c) = st\<lparr>console_error := console_error st @ [DirReadError dir]\<rparr>"
| "rd_entries st dir [] = st"
| "rd_entries st dir ((name, n) # files) =
     rd_entries
       (if isDirectory n \<and> \<not> shouldSkipDirectory name then
          rd_findRouteFiles st (path_join dir name) n
        else if isRelevantFile name then
          rd_analyzeRouteFile st (path_join dir name) n
        else st)
       dir files"


section \<open>Aggregation\<close>

text \<open>
  \<^verbatim>\<open>getIssuesBySeverity\<close> and \<^verbatim>\<open>getIssuesByType\<close> count into an object
  keyed by text: a map from keys to counters. \<^verbatim>\<open>(x[k] || 0) + 1\<close> starts a missing
  key at 0.
\<close>

definition bump :: "(string \<rightharpoonup> nat) \<Rightarrow> string \<Rightarrow> (string \<rightharpoonup> nat)" where
  "bump by k = by(k \<mapsto> (case by k of None \<Rightarrow> 0 | Some c \<Rightarrow> c) + 1)"

definition getIssuesBySeverity :: "issue list \<Rightarrow> (string \<rightharpoonup> nat)" where
  "getIssuesBySeverity is =
     foldl (\<lambda>bySeverity issue. bump bySeverity (i_severity issue))
       [''high'' \<mapsto> 0, ''medium'' \<mapsto> 0, ''low'' \<mapsto> 0] is"

definition getIssuesByType :: "issue list \<Rightarrow> (string \<rightharpoonup> nat)" where
  "getIssuesByType is = foldl (\<lambda>byType issue. bump byType (i_type issue)) Map.empty is"

definition mapDependencies :: "RouteDebugger \<Rightarrow> RouteDebugger" where
  "mapDependencies st =
     st\<lparr>dependencies :=
          [(''react-router'', list_ex hasReactRouter (routeConfigs st)),
           (''react-router-dom'', list_ex hasReactRouter (routeConfigs st)),
           (''@tanstack/react-query'', list_ex hasMultipleQueryClients (routeConfigs st)),
           (''capitalrx-shell'', list_ex hasShellComponents (routeConfigs st))]\<rparr>"

definition global_rec :: "string \<Rightarrow> string \<Rightarrow> string \<Rightarrow> recommendation" where
  "global_rec prio msg act =
     \<lparr>r_file = None, r_priority = Some prio, r_message = msg, r_action = Some act\<rparr>"

definition generateRecommendations :: "RouteDebugger \<Rightarrow> RouteDebugger" where
  "generateRecommendations st =
     (let highIssues = filter (\<lambda>i. i_severity i = ''high'') (issues st);
          mediumIssues = filter (\<lambda>i. i_severity i = ''medium'') (issues st);
          r1 = (if length highIssues > 0 then
                  [global_rec ''high''
                     ''Address high-severity issues immediately to prevent route unmounting''
                     ''Review dynamic route generation and context placement patterns'']
                else []);
          r2 = (if length mediumIssues > 3 then
                  [global_rec ''medium'' ''Multiple medium-severity issues detected''
                     ''Consider refactoring route structure for better stability'']
                else []);
          r3 = (if length (routeConfigs st) > 10
                   \<and> length (filter hasUnmemoizedRoutes (routeConfigs st)) > 5 then
                  [global_rec ''medium'' ''Large number of unmemoized routes detected''
                     ''Implement useMemo wrapping for route arrays across the application'']
                else [])
      in st\<lparr>recommendations := recommendations st @ r1 @ r2 @ r3\<rparr>)"

section \<open>Runs and the command line\<close>

definition new_RouteAnalyzer :: "string \<Rightarrow> cli_options \<Rightarrow> RouteAnalyzer" where
  "new_RouteAnalyzer base opts =
     \<lparr>basePath = base, options = opts, issues = [], recommendations = [],
      fileStats = \<lparr>total = 0, analyzed = 0, withIssues = 0\<rparr>, console_error = []\<rparr>"

definition new_RouteDebugger :: "string \<Rightarrow> cli_options \<Rightarrow> RouteDebugger" where
  "new_RouteDebugger base opts =
     \<lparr>basePath = base, options = opts, issues = [], recommendations = [],
      fileStats = \<lparr>total = 0, analyzed = 0, withIssues = 0\<rparr>, console_error = [],
      dependencies = [], routeConfigs = []\<rparr>"

text \<open>
  \<open>run\<close> walks the tree found at the base path; the reports it then prints or writes are
  computed from the analyzer object it returns.
\<close>

definition ra_run :: "RouteAnalyzer \<Rightarrow> node \<Rightarrow> RouteAnalyzer" where
  "ra_run st root = ra_findRouteFiles st [] root"

definition rd_run :: "RouteDebugger \<Rightarrow> node \<Rightarrow> RouteDebugger" where
  "rd_run st root = generateRecommendations (mapDependencies (rd_findRouteFiles st [] root))"

text \<open>
  The world a process runs in: the working directory, \<^verbatim>\<open>path.resolve\<close>, what is at
  each absolute path (\<open>None\<close>: nothing, \<^verbatim>\<open>existsSync\<close> is false), and whether the
  report file can be written at a path.
\<close>

record env =
  cwd :: string
  resolve :: "string \<Rightarrow> string"
  fs :: "string \<Rightarrow> node option"
  writable :: "string \<Rightarrow> bool"

definition default_options :: cli_options where
  "default_options =
     \<lparr>o_verbose = False, o_json = False, o_html = False, o_output = None, o_help = False\<rparr>"

text \<open>How a process ends: its exit status, its error stream, and the analyzer if one ran.\<close>

record 'a outcome =
  exit_status :: nat
  error_stream :: "log_line list"
  analyzer :: "'a option"

subsection \<open>RouteAnalyzer\<close>

fun ra_parse :: "env \<Rightarrow> cli_options \<times> string \<Rightarrow> string list \<Rightarrow> cli_options \<times> string" where
  "ra_parse e (opts, targetPath) [] = (opts, targetPath)"
| "ra_parse e (opts, targetPath) (arg # args) =
     ra_parse e
       (if arg = ''--help'' \<or> arg = ''-h'' then (opts\<lparr>o_help := True\<rparr>, targetPath)
        else if arg = ''--verbose'' \<or> arg = ''-v'' then (opts\<lparr>o_verbose := True\<rparr>, targetPath)
        else if arg = ''--json'' \<or> arg = ''-j'' then (opts\<lparr>o_json := True\<rparr>, targetPath)
        else if \<not> prefix ''-'' arg then (opts, resolve e arg)
        else (opts, targetPath))
       args"

definition ra_main :: "env \<Rightarrow> string list \<Rightarrow> RouteAnalyzer outcome" where
  "ra_main e args =
     (case ra_parse e (default_options, cwd e) args of (opts, targetPath) \<Rightarrow>
        if o_help opts then \<lparr>exit_status = 0, error_stream = [], analyzer = None\<rparr>
        else
          (case fs e targetPath of
             None \<Rightarrow>
               \<lparr>exit_status = 1, error_stream = [PathDoesNotExist targetPath], analyzer = None\<rparr>
           | Some root \<Rightarrow>
               (let results = ra_run (new_RouteAnalyzer targetPath opts) root
                in \<lparr>exit_status = (if \<not> o_json opts \<and> length (issues results) > 0 then 1 else 0),
                    error_stream = console_error results,
                    analyzer = Some results\<rparr>)))"

subsection \<open>RouteDebugger\<close>

text \<open>\<^verbatim>\<open>arg.split("=")[1]\<close>, for an argument that contains \<^verbatim>\<open>=\<close>.\<close>

definition after_equals :: "string \<Rightarrow> string" where
  "after_equals arg = takeWhile (\<lambda>c. c \<noteq> CHR ''='') (drop 1 (dropWhile (\<lambda>c. c \<noteq> CHR ''='') arg))"

fun rd_parse :: "env \<Rightarrow> cli_options \<times> string \<Rightarrow> string list \<Rightarrow> cli_options \<times> string" where
  "rd_parse e (opts, targetPath) [] = (opts, targetPath)"
| "rd_parse e (opts, targetPath) (arg # args) =
     (if arg = ''--help'' \<or> arg = ''-h'' then rd_parse e (opts\<lparr>o_help := True\<rparr>, targetPath) args
      else if arg = ''--verbose'' \<or> arg = ''-v'' then
        rd_parse e (opts\<lparr>o_verbose := True\<rparr>, targetPath) args
      else if arg = ''--json'' \<or> arg = ''-j'' then rd_parse e (opts\<lparr>o_json := True\<rparr>, targetPath) args
      else if arg = ''--html'' then rd_parse e (opts\<lparr>o_html := True\<rparr>, targetPath) args
      else if prefix ''--output='' arg then
        rd_parse e (opts\<lparr>o_output := Some (after_equals arg)\<rparr>, targetPath) args
      else if arg = ''--output'' then
        (case args of
           [] \<Rightarrow> (opts\<lparr>o_output := None\<rparr>, targetPath)
         | v # rest \<Rightarrow> rd_parse e (opts\<lparr>o_output := Some v\<rparr>, targetPath) rest)
      else if \<not> prefix ''--'' arg \<and> fs e (resolve e arg) \<noteq> None then
        rd_parse e (opts, resolve e arg) args
      else rd_parse e (opts, targetPath) args)"

definition outputPath :: "cli_options \<Rightarrow> string" where
  "outputPath opts =
     (case o_output opts of
        None \<Rightarrow> ''docs/index.html''
      | Some p \<Rightarrow> if p = [] then ''docs/index.html'' else p)"

definition rd_main :: "env \<Rightarrow> string list \<Rightarrow> RouteDebugger outcome" where
  "rd_main e args =
     (case rd_parse e (default_options, cwd e) args of (opts0, targetPath) \<Rightarrow>
        (let opts = (if \<not> o_json opts0 \<and> \<not> o_html opts0 then opts0\<lparr>o_html := True\<rparr> else opts0)
         in if o_help opts then \<lparr>exit_status = 0, error_stream = [], analyzer = None\<rparr>
            else
              (case fs e targetPath of
                 None \<Rightarrow>
                   \<lparr>exit_status = 1, error_stream = [PathDoesNotExist targetPath],
                    analyzer = None\<rparr>
               | Some root \<Rightarrow>
                   (let results = rd_run (new_RouteDebugger targetPath opts) root
                    in if o_html opts \<and> \<not> writable e (outputPath opts) then
                         \<lparr>exit_status = 1,
                          error_stream = console_error results @ [AnalysisFailed],
                          analyzer = Some results\<rparr>
                       else
                         \<lparr>exit_status =
                            (if \<not> o_json opts \<and> \<not> o_html opts \<and> length (issues results) > 0
                             then 1 else 0),
                          error_stream = console_error results,
                          analyzer = Some results\<rparr>))))"


section \<open>Notions used in the statements\<close>

text \<open>An issue without its \<^verbatim>\<open>fix\<close> text.\<close>

definition strip_fix :: "issue \<Rightarrow> issue" where
  "strip_fix i = i\<lparr>i_fix := None\<rparr>"

text \<open>The issues of one file, rule by rule, each rule started on an empty array.\<close>

definition rd_fileIssues :: "string \<Rightarrow> string \<Rightarrow> issue list" where
  "rd_fileIssues c p =
     rd_checkDynamicRouteGeneration c p [] @ rd_checkQueryClientCreation c p [] @
     rd_checkContextPlacement c p [] @ rd_checkBlockedNavigation c p [] @
     rd_checkActivityContext c p [] @ rd_checkMemoization c p [] @
     rd_checkAsyncWrapper c p [] @ rd_checkShellPatterns c p [] @
     rd_checkPerformancePatterns c p []"

text \<open>The severity of an issue is one of the three keys of the severity counters.\<close>

definition sev_ok :: "issue \<Rightarrow> bool" where
  "sev_ok i = (i_severity i = ''high'' \<or> i_severity i = ''medium'' \<or> i_severity i = ''low'')"

text \<open>The invariant of the file counters.\<close>

definition stats_ok :: "FileStats \<Rightarrow> bool" where
  "stats_ok s = (analyzed s \<le> total s \<and> withIssues s \<le> analyzed s)"

text \<open>
  The first position of a text whose suffix satisfies \<open>P\<close>, positions counted from 0 and
  the end of the text included.
\<close>

fun first_pos :: "(string \<Rightarrow> bool) \<Rightarrow> string \<Rightarrow> nat option" where
  "first_pos P [] = (if P [] then Some 0 else None)"
| "first_pos P (c # cs) = (if P (c # cs) then Some 0 else map_option Suc (first_pos P cs))"

text \<open>The index of the first occurrence of any of the keywords \<open>kws\<close> in a text.\<close>

definition first_occurrence :: "string list \<Rightarrow> string \<Rightarrow> nat option" where
  "first_occurrence kws s = first_pos (\<lambda>t. list_ex (\<lambda>k. prefix k t) kws) s"

definition context_keywords :: "string list" where
  "context_keywords = [''createContext'', ''useContext'', ''.Provider'']"

definition context_issue :: "string \<Rightarrow> issue" where
  "context_issue p =
     \<lparr>i_type = ''context-placement'', i_severity = ''high'', i_file = p,
      i_message = ''Context may be placed above Routes - could cause unmounts'',
      i_pattern = None, i_count = None, i_fix = None\<rparr>"

text \<open>
  The relevance predicate in the words of the specification: the name contains
  \<^verbatim>\<open>route\<close> in any mix of cases or ends in \<^verbatim>\<open>Routes.ts\<close> or
  \<^verbatim>\<open>Routes.tsx\<close>, and it ends in one of the four extensions. \<open>to_lower\<close> maps
  the letters \<^verbatim>\<open>A\<close> to \<^verbatim>\<open>Z\<close> to lower case.
\<close>

definition to_lower :: "char \<Rightarrow> char" where
  "to_lower c = (case map_of (zip upper_letters lower_letters) c of None \<Rightarrow> c | Some l \<Rightarrow> l)"

definition relevance_predicate :: "string \<Rightarrow> bool" where
  "relevance_predicate name =
     ((sublist ''route'' (map to_lower name)
        \<or> suffix ''Routes.ts'' name \<or> suffix ''Routes.tsx'' name)
      \<and> (suffix ''.js'' name \<or> suffix ''.jsx'' name \<or> suffix ''.ts'' name \<or> suffix ''.tsx'' name))"

text \<open>
  A tree without the directories named in \<open>names\<close>: every directory entry met below the
  root whose name is in the list is removed with all that is below it, at every depth. The
  root itself is the target of the run; it has no entry of its own and is never removed.
\<close>

fun prune :: "string list \<Rightarrow> node \<Rightarrow> node"
  and prune_entries :: "string list \<Rightarrow> (string \<times> node) list \<Rightarrow> (string \<times> node) list"
where
  "prune names (File c) = File c"
| "prune names (Dir None) = Dir None"
| "prune names (Dir (Some files)) = Dir (Some (prune_entries names files))"
| "prune_entries names [] = []"
| "prune_entries names ((name, n) # files) =
     (if isDirectory n \<and> name \<in> set names then prune_entries names files
      else (name, prune names n) # prune_entries names files)"

text \<open>
  A world whose target directory is itself called \<^verbatim>\<open>build\<close> and holds one file.
\<close>

definition build_env :: env where
  "build_env =
     \<lparr>cwd = ''/work'', resolve = (\<lambda>a. if prefix ''/'' a then a else ''/work/'' @ a),
      fs = (\<lambda>p. if p = ''/work/build''
                 then Some (Dir (Some [(''routes.js'', File (Some ''debugger''))]))
                 else None),
      writable = (\<lambda>p. True)\<rparr>"

definition dynamic_issue :: "string \<Rightarrow> string \<Rightarrow> issue" where
  "dynamic_issue p pat =
     \<lparr>i_type = ''dynamic-route-generation'', i_severity = ''high'', i_file = p,
      i_message = ''Dynamic route generation detected - may cause unmounts'',
      i_pattern = Some pat, i_count = None, i_fix = None\<rparr>"

definition wrap_in_useMemo :: string where
  "wrap_in_useMemo = ''Wrap routes array in useMemo to prevent recreation''"

text \<open>
  The number of positions of a text whose suffix satisfies \<open>P\<close>, and whether all
  positions do. With \<open>P = prefix l\<close> the former is the number of occurrences of \<open>l\<close>.
\<close>

fun count_pos :: "(string \<Rightarrow> bool) \<Rightarrow> string \<Rightarrow> nat" where
  "count_pos P [] = (if P [] then 1 else 0)"
| "count_pos P (c # cs) = (if P (c # cs) then 1 else 0) + count_pos P cs"

fun all_pos :: "(string \<Rightarrow> bool) \<Rightarrow> string \<Rightarrow> bool" where
  "all_pos P [] = P []"
| "all_pos P (c # cs) = (P (c # cs) \<and> all_pos P cs)"

text \<open>
  \<open>has_ne x\<close>: some position of \<open>x\<close> holds \<^verbatim>\<open>n\<close> followed by \<^verbatim>\<open>e\<close>, or
  \<open>x\<close> ends in \<^verbatim>\<open>n\<close>. Where it fails, no match of \<^verbatim>\<open>new\<close> can start
  inside \<open>x\<close>, whatever follows \<open>x\<close>.
\<close>

fun has_ne :: "string \<Rightarrow> bool" where
  "has_ne [] = False"
| "has_ne [a] = (a = CHR ''n'')"
| "has_ne (a # b # cs) = ((a = CHR ''n'' \<and> b = CHR ''e'') \<or> has_ne (b # cs))"

definition queryClient_issue :: "string \<Rightarrow> nat \<Rightarrow> issue" where
  "queryClient_issue p n =
     \<lparr>i_type = ''query-client-creation'', i_severity = ''medium'', i_file = p,
      i_message = ''QueryClient created in route file - may cause state loss'',
      i_pattern = None, i_count = Some n, i_fix = None\<rparr>"

text \<open>
  The positional arguments of a command line, and whether it asks for help. \<open>example_env\<close>
  is a world with one directory, \<^verbatim>\<open>/work\<close>, that holds one file.
\<close>

definition positional :: "string list \<Rightarrow> string list" where
  "positional args = filter (\<lambda>a. \<not> prefix ''-'' a) args"

definition help_requested :: "string list \<Rightarrow> bool" where
  "help_requested args = (''--help'' \<in> set args \<or> ''-h'' \<in> set args)"

definition example_env :: env where
  "example_env =
     \<lparr>cwd = ''/work'', resolve = (\<lambda>a. if prefix ''/'' a then a else ''/work/'' @ a),
      fs = (\<lambda>p. if p = ''/work'' then Some (Dir (Some [(''routes.js'', File (Some ''debugger''))]))
                 else None),
      writable = (\<lambda>p. True)\<rparr>"

section \<open>Properties\<close>


subsection \<open>The two rule sets side by side\<close>

lemmas rd_check_defs =
  rd_checkDynamicRouteGeneration_def rd_checkQueryClientCreation_def rd_checkContextPlacement_def
  rd_checkBlockedNavigation_def rd_checkActivityContext_def rd_checkMemoization_def
  rd_checkAsyncWrapper_def rd_checkShellPatterns_def rd_checkPerformancePatterns_def

lemmas ra_check_defs =
  ra_checkDynamicRouteGeneration_def ra_checkQueryClientCreation_def ra_checkContextPlacement_def
  ra_checkBlockedNavigation_def ra_checkActivityContext_def ra_checkMemoization_def
  ra_checkAsyncWrapper_def ra_checkShellPatterns_def ra_checkPerformancePatterns_def

lemma rd_check_append:
  "rd_checkDynamicRouteGeneration c p fi = fi @ rd_checkDynamicRouteGeneration c p []"
  "rd_checkQueryClientCreation c p fi = fi @ rd_checkQueryClientCreation c p []"
  "rd_checkContextPlacement c p fi = fi @ rd_checkContextPlacement c p []"
  "rd_checkBlockedNavigation c p fi = fi @ rd_checkBlockedNavigation c p []"
  "rd_checkActivityContext c p fi = fi @ rd_checkActivityContext c p []"
  "rd_checkMemoization c p fi = fi @ rd_checkMemoization c p []"
  "rd_checkAsyncWrapper c p fi = fi @ rd_checkAsyncWrapper c p []"
  "rd_checkShellPatterns c p fi = fi @ rd_checkShellPatterns c p []"
  "rd_checkPerformancePatterns c p fi = fi @ rd_checkPerformancePatterns c p []"
  by (simp_all add: rd_check_defs rd_patterns_def Let_def split: option.splits)

lemma ra_check_fst:
  "fst (ra_checkDynamicRouteGeneration c p acc) = fst acc @ map strip_fix (rd_checkDynamicRouteGeneration c p [])"
  "fst (ra_checkQueryClientCreation c p acc) = fst acc @ map strip_fix (rd_checkQueryClientCreation c p [])"
  "fst (ra_checkContextPlacement c p acc) = fst acc @ map strip_fix (rd_checkContextPlacement c p [])"
  "fst (ra_checkBlockedNavigation c p acc) = fst acc @ map strip_fix (rd_checkBlockedNavigation c p [])"
  "fst (ra_checkActivityContext c p acc) = fst acc @ map strip_fix (rd_checkActivityContext c p [])"
  "fst (ra_checkMemoization c p acc) = fst acc @ map strip_fix (rd_checkMemoization c p [])"
  "fst (ra_checkAsyncWrapper c p acc) = fst acc @ map strip_fix (rd_checkAsyncWrapper c p [])"
  "fst (ra_checkShellPatterns c p acc) = fst acc @ map strip_fix (rd_checkShellPatterns c p [])"
  "fst (ra_checkPerformancePatterns c p acc) = fst acc @ map strip_fix (rd_checkPerformancePatterns c p [])"
  by (cases acc; simp add: rd_check_defs ra_check_defs rd_patterns_def ra_patterns_def strip_fix_def Let_def split: option.splits)+

lemma rd_rules_eq: "rd_rules c p fi = fi @ rd_fileIssues c p"
  unfolding rd_rules_def rd_fileIssues_def
  apply (subst rd_check_append(9))
  apply (subst rd_check_append(8))
  apply (subst rd_check_append(7))
  apply (subst rd_check_append(6))
  apply (subst rd_check_append(5))
  apply (subst rd_check_append(4))
  apply (subst rd_check_append(3))
  apply (subst rd_check_append(2))
  apply (subst rd_check_append(1))
  apply simp
  done

lemma ra_rules_fst: "fst (ra_rules c p acc) = fst acc @ map strip_fix (rd_fileIssues c p)"
  unfolding ra_rules_def rd_fileIssues_def by (simp add: ra_check_fst)



subsection \<open>Severities\<close>

lemma rd_fileIssues_sev: "list_all sev_ok (rd_fileIssues c p)"
  unfolding rd_fileIssues_def
  by (simp add: rd_check_defs rd_patterns_def sev_ok_def Let_def split: option.splits)

lemma rd_fileIssues_fix: "list_all (\<lambda>i. i_fix i \<noteq> None) (rd_fileIssues c p)"
  unfolding rd_fileIssues_def
  by (simp add: rd_check_defs rd_patterns_def Let_def split: option.splits)

lemma strip_fix_sev: "sev_ok (strip_fix i) = sev_ok i"
  by (simp add: sev_ok_def strip_fix_def)

lemma ra_issues_step:
  "issues (ra_analyzeRouteFile st p (File (Some c))) = issues st @ map strip_fix (rd_fileIssues c p)"
proof -
  obtain fi recs where r: "ra_rules c p ([], recommendations st) = (fi, recs)"
    by (cases "ra_rules c p ([], recommendations st)")
  have "fi = map strip_fix (rd_fileIssues c p)"
    using ra_rules_fst [of c p "([], recommendations st)"] r by simp
  with r show ?thesis by (simp add: ra_analyzeRouteFile_def Let_def)
qed

lemma rd_issues_step:
  "issues (rd_analyzeRouteFile st p (File (Some c))) = issues st @ rd_fileIssues c p"
  by (simp add: rd_analyzeRouteFile_def Let_def rd_rules_eq)

lemma ra_analyze_sev:
  "list_all sev_ok (issues st) \<Longrightarrow> list_all sev_ok (issues (ra_analyzeRouteFile st p n))"
proof (cases n)
  case (File c)
  assume a: "list_all sev_ok (issues st)"
  show ?thesis
  proof (cases c)
    case None
    with File a show ?thesis by (simp add: ra_analyzeRouteFile_def)
  next
    case (Some body)
    have "list_all sev_ok (map strip_fix (rd_fileIssues body p))"
      using rd_fileIssues_sev [of body p] by (simp add: list_all_iff strip_fix_sev)
    with File Some a show ?thesis by (simp add: ra_issues_step)
  qed
next
  case (Dir es)
  assume "list_all sev_ok (issues st)"
  with Dir show ?thesis by (simp add: ra_analyzeRouteFile_def)
qed

lemma rd_analyze_sev:
  "list_all sev_ok (issues st) \<Longrightarrow> list_all sev_ok (issues (rd_analyzeRouteFile st p n))"
proof (cases n)
  case (File c)
  assume a: "list_all sev_ok (issues st)"
  show ?thesis
  proof (cases c)
    case None
    with File a show ?thesis by (simp add: rd_analyzeRouteFile_def)
  next
    case (Some body)
    with File a rd_fileIssues_sev [of body p] show ?thesis by (simp add: rd_issues_step)
  qed
next
  case (Dir es)
  assume "list_all sev_ok (issues st)"
  with Dir show ?thesis by (simp add: rd_analyzeRouteFile_def)
qed

lemma ra_walk_sev:
  "list_all sev_ok (issues st) \<Longrightarrow> list_all sev_ok (issues (ra_findRouteFiles st dir n))"
  "list_all sev_ok (issues st) \<Longrightarrow> list_all sev_ok (issues (ra_entries st dir files))"
proof (induction st dir n and st dir files rule: ra_findRouteFiles_ra_entries.induct)
  case (5 st dir name n files)
  then show ?case by (simp add: ra_analyze_sev)
qed simp_all

lemma rd_walk_sev:
  "list_all sev_ok (issues st) \<Longrightarrow> list_all sev_ok (issues (rd_findRouteFiles st dir n))"
  "list_all sev_ok (issues st) \<Longrightarrow> list_all sev_ok (issues (rd_entries st dir files))"
proof (induction st dir n and st dir files rule: rd_findRouteFiles_rd_entries.induct)
  case (5 st dir name n files)
  then show ?case by (simp add: rd_analyze_sev)
qed simp_all

lemma bySeverity_fold:
  assumes "list_all sev_ok is"
    and "by ''high'' = Some h" and "by ''medium'' = Some md" and "by ''low'' = Some l"
  shows "\<exists>h' md' l'. foldl (\<lambda>b i. bump b (i_severity i)) by is ''high'' = Some h'
           \<and> foldl (\<lambda>b i. bump b (i_severity i)) by is ''medium'' = Some md'
           \<and> foldl (\<lambda>b i. bump b (i_severity i)) by is ''low'' = Some l'
           \<and> h' + md' + l' = h + md + l + length is"
  using assms
proof (induction "is" arbitrary: "by" h md l)
  case Nil
  then show ?case by simp
next
  case (Cons i "is")
  from Cons.prems(1) have ok: "sev_ok i" and rest: "list_all sev_ok is" by simp_all
  from ok consider "i_severity i = ''high''" | "i_severity i = ''medium''" | "i_severity i = ''low''"
    by (auto simp: sev_ok_def)
  then show ?case
  proof cases
    case 1
    have "\<exists>h' md' l'. foldl (\<lambda>b i. bump b (i_severity i)) (bump by ''high'') is ''high'' = Some h'
           \<and> foldl (\<lambda>b i. bump b (i_severity i)) (bump by ''high'') is ''medium'' = Some md'
           \<and> foldl (\<lambda>b i. bump b (i_severity i)) (bump by ''high'') is ''low'' = Some l'
           \<and> h' + md' + l' = (h + 1) + md + l + length is"
      by (rule Cons.IH [OF rest]) (simp_all add: bump_def Cons.prems)
    with 1 show ?thesis by simp
  next
    case 2
    have "\<exists>h' md' l'. foldl (\<lambda>b i. bump b (i_severity i)) (bump by ''medium'') is ''high'' = Some h'
           \<and> foldl (\<lambda>b i. bump b (i_severity i)) (bump by ''medium'') is ''medium'' = Some md'
           \<and> foldl (\<lambda>b i. bump b (i_severity i)) (bump by ''medium'') is ''low'' = Some l'
           \<and> h' + md' + l' = h + (md + 1) + l + length is"
      by (rule Cons.IH [OF rest]) (simp_all add: bump_def Cons.prems)
    with 2 show ?thesis by simp
  next
    case 3
    have "\<exists>h' md' l'. foldl (\<lambda>b i. bump b (i_severity i)) (bump by ''low'') is ''high'' = Some h'
           \<and> foldl (\<lambda>b i. bump b (i_severity i)) (bump by ''low'') is ''medium'' = Some md'
           \<and> foldl (\<lambda>b i. bump b (i_severity i)) (bump by ''low'') is ''low'' = Some l'
           \<and> h' + md' + l' = h + md + (l + 1) + length is"
      by (rule Cons.IH [OF rest]) (simp_all add: bump_def Cons.prems)
    with 3 show ?thesis by simp
  qed
qed

lemma bySeverity_total:
  assumes "list_all sev_ok is"
  shows "\<exists>h md l. getIssuesBySeverity is ''high'' = Some h
           \<and> getIssuesBySeverity is ''medium'' = Some md
           \<and> getIssuesBySeverity is ''low'' = Some l
           \<and> h + md + l = length is"
  using bySeverity_fold [OF assms, of "[''high'' \<mapsto> 0, ''medium'' \<mapsto> 0, ''low'' \<mapsto> 0]" 0 0 0]
  by (simp add: getIssuesBySeverity_def)

text \<open>
  Claim C6. After a run of either variant over any tree, the severity counters
  \<^verbatim>\<open>high\<close>, \<^verbatim>\<open>medium\<close> and \<^verbatim>\<open>low\<close> of
  \<^verbatim>\<open>getIssuesBySeverity\<close> add up to the number of issues: every issue that a rule
  emits carries one of the three severities, so no issue is counted under a fourth key.
\<close>

theorem severity_counters_account_for_every_issue:
  "(\<exists>h md l. getIssuesBySeverity (issues (ra_run (new_RouteAnalyzer base opts) root)) ''high'' = Some h
      \<and> getIssuesBySeverity (issues (ra_run (new_RouteAnalyzer base opts) root)) ''medium'' = Some md
      \<and> getIssuesBySeverity (issues (ra_run (new_RouteAnalyzer base opts) root)) ''low'' = Some l
      \<and> h + md + l = length (issues (ra_run (new_RouteAnalyzer base opts) root)))
   \<and> (\<exists>h md l. getIssuesBySeverity (issues (rd_run (new_RouteDebugger base opts) root)) ''high'' = Some h
      \<and> getIssuesBySeverity (issues (rd_run (new_RouteDebugger base opts) root)) ''medium'' = Some md
      \<and> getIssuesBySeverity (issues (rd_run (new_RouteDebugger base opts) root)) ''low'' = Some l
      \<and> h + md + l = length (issues (rd_run (new_RouteDebugger base opts) root)))"
proof
  have "list_all sev_ok (issues (ra_run (new_RouteAnalyzer base opts) root))"
    unfolding ra_run_def by (rule ra_walk_sev(1)) (simp add: new_RouteAnalyzer_def)
  then show "\<exists>h md l. getIssuesBySeverity (issues (ra_run (new_RouteAnalyzer base opts) root)) ''high'' = Some h
      \<and> getIssuesBySeverity (issues (ra_run (new_RouteAnalyzer base opts) root)) ''medium'' = Some md
      \<and> getIssuesBySeverity (issues (ra_run (new_RouteAnalyzer base opts) root)) ''low'' = Some l
      \<and> h + md + l = length (issues (ra_run (new_RouteAnalyzer base opts) root))"
    by (rule bySeverity_total)
next
  have "list_all sev_ok (issues (rd_findRouteFiles (new_RouteDebugger base opts) [] root))"
    by (rule rd_walk_sev(1)) (simp add: new_RouteDebugger_def)
  then have "list_all sev_ok (issues (rd_run (new_RouteDebugger base opts) root))"
    by (simp add: rd_run_def generateRecommendations_def mapDependencies_def Let_def)
  then show "\<exists>h md l. getIssuesBySeverity (issues (rd_run (new_RouteDebugger base opts) root)) ''high'' = Some h
      \<and> getIssuesBySeverity (issues (rd_run (new_RouteDebugger base opts) root)) ''medium'' = Some md
      \<and> getIssuesBySeverity (issues (rd_run (new_RouteDebugger base opts) root)) ''low'' = Some l
      \<and> h + md + l = length (issues (rd_run (new_RouteDebugger base opts) root))"
    by (rule bySeverity_total)
qed



subsection \<open>File counters\<close>

lemma ra_analyze_stats:
  "total (fileStats (ra_analyzeRouteFile st p n)) = total (fileStats st)"
  "analyzed (fileStats (ra_analyzeRouteFile st p n)) \<le> analyzed (fileStats st) + 1"
  "withIssues (fileStats st) \<le> analyzed (fileStats st) \<Longrightarrow>
   withIssues (fileStats (ra_analyzeRouteFile st p n)) \<le> analyzed (fileStats (ra_analyzeRouteFile st p n))"
  by (auto simp: ra_analyzeRouteFile_def Let_def split: node.splits option.splits prod.splits)

lemma ra_walk_stats:
  "stats_ok (fileStats st) \<Longrightarrow> stats_ok (fileStats (ra_findRouteFiles st dir n))"
  "stats_ok (fileStats st) \<Longrightarrow> stats_ok (fileStats (ra_entries st dir files))"
proof (induction st dir n and st dir files rule: ra_findRouteFiles_ra_entries.induct)
  case (5 st dir name n files)
  let ?st1 = "st\<lparr>fileStats := (fileStats st)\<lparr>total := total (fileStats st) + 1\<rparr>\<rparr>"
  have "stats_ok (fileStats (ra_analyzeRouteFile ?st1 (path_join dir name) n))"
    using "5.prems" ra_analyze_stats(1) [of ?st1 "path_join dir name" n]
      ra_analyze_stats(2) [of ?st1 "path_join dir name" n]
      ra_analyze_stats(3) [of ?st1 "path_join dir name" n]
    by (simp add: stats_ok_def)
  with 5 show ?case by simp
qed simp_all

lemma ra_run_stats: "stats_ok (fileStats (ra_run (new_RouteAnalyzer base opts) root))"
  unfolding ra_run_def by (rule ra_walk_stats(1)) (simp add: new_RouteAnalyzer_def stats_ok_def)

lemma relevant_routes_js: "isRelevantFile ''routes.js''"
  by (simp add: isRelevantFile_def js_match_truthy_def routeNamePattern_def
      routesSuffixPattern_def extensionPattern_def ci_eq_def)

lemma rd_rules_empty_text: "rd_rules [] p [] = []"
  by (simp add: rd_rules_def rd_check_defs rd_patterns_def js_match_g_def js_test_def
    routesMapPattern_def queryClientPattern_def contextPattern_def routesPattern_def
    expensivePattern_def consoleLogPattern_def debuggerPattern_def jsonClonePattern_def)

text \<open>
  Claim C1. RouteAnalyzer keeps \<open>analyzed \<le> total\<close> and \<open>withIssues \<le> analyzed\<close>
  (\<open>ra_run_stats\<close>). RouteDebugger declares the same three counters but never increments
  \<^verbatim>\<open>total\<close>: on a directory that holds the one readable file
  \<^verbatim>\<open>routes.js\<close> it ends with \<open>total = 0\<close> and \<open>analyzed = 1\<close>.
\<close>

theorem extended_variant_never_counts_total:
  "fileStats (rd_run (new_RouteDebugger base opts) (Dir (Some [(''routes.js'', File (Some ''''))])))
     = \<lparr>total = 0, analyzed = 1, withIssues = 0\<rparr>"
  by (simp add: rd_run_def new_RouteDebugger_def generateRecommendations_def mapDependencies_def
      relevant_routes_js rd_rules_empty_text shouldSkipDirectory_def rd_analyzeRouteFile_def Let_def)

subsection \<open>Determinism and agreement of the variants\<close>

text \<open>
  Claim C9. The issues that the nine rules emit for a file are a function of its text and
  relative path alone: whatever the analyzer has collected before, analysing the same text
  under the same path appends the same ordered list, so analysing it twice in a row appends
  that list twice. This holds of both variants.
\<close>

theorem rule_evaluation_is_deterministic:
  "issues (ra_analyzeRouteFile (ra_analyzeRouteFile st p (File (Some c))) p (File (Some c)))
     = issues st @ fst (ra_rules c p ([], [])) @ fst (ra_rules c p ([], []))
   \<and> issues (rd_analyzeRouteFile (rd_analyzeRouteFile st' p (File (Some c))) p (File (Some c)))
     = issues st' @ rd_rules c p [] @ rd_rules c p []
   \<and> fst (ra_rules c p (fi, recs)) = fi @ fst (ra_rules c p ([], []))
   \<and> rd_rules c p fi = fi @ rd_rules c p []"
  by (simp add: ra_issues_step rd_issues_step ra_rules_fst rd_rules_eq)

text \<open>
  Claim C10. On every text and path the nine rules of RouteAnalyzer emit the issues of the
  nine rules of RouteDebugger, in the same order and with the same type, severity, file,
  message, pattern and count; the issues of RouteDebugger carry a fix text in addition, those
  of RouteAnalyzer none.
\<close>

theorem variants_emit_the_same_issues:
  "fst (ra_rules c p ([], recs)) = map (\<lambda>i. i\<lparr>i_fix := None\<rparr>) (rd_rules c p [])
   \<and> None \<notin> i_fix ` set (rd_rules c p [])"
proof
  show "fst (ra_rules c p ([], recs)) = map (\<lambda>i. i\<lparr>i_fix := None\<rparr>) (rd_rules c p [])"
    using ra_rules_fst [of c p "([], recs)"] rd_rules_eq [of c p "[]"]
    by (simp add: strip_fix_def [abs_def])
  show "None \<notin> i_fix ` set (rd_rules c p [])"
    using rd_fileIssues_fix [of c p] rd_rules_eq [of c p "[]"]
    by (auto simp: list_all_iff)
qed

subsection \<open>Positions, search and inclusion\<close>

lemma first_pos_None: "first_pos P s = None \<longleftrightarrow> (\<forall>k\<le>length s. \<not> P (drop k s))"
proof (induction s)
  case Nil
  then show ?case by simp
next
  case (Cons c cs)
  show ?case
  proof (cases "P (c # cs)")
    case True
    then show ?thesis by auto
  next
    case False
    have "(\<forall>k\<le>length (c # cs). \<not> P (drop k (c # cs))) \<longleftrightarrow> (\<forall>k\<le>length cs. \<not> P (drop k cs))"
    proof
      assume a: "\<forall>k\<le>length (c # cs). \<not> P (drop k (c # cs))"
      show "\<forall>k\<le>length cs. \<not> P (drop k cs)"
      proof (intro allI impI)
        fix k assume "k \<le> length cs"
        then have "\<not> P (drop (Suc k) (c # cs))" using a by (metis Suc_le_mono length_Cons)
        then show "\<not> P (drop k cs)" by simp
      qed
    next
      assume a: "\<forall>k\<le>length cs. \<not> P (drop k cs)"
      show "\<forall>k\<le>length (c # cs). \<not> P (drop k (c # cs))"
      proof (intro allI impI)
        fix k assume k: "k \<le> length (c # cs)"
        show "\<not> P (drop k (c # cs))"
        proof (cases k)
          case 0
          with False show ?thesis by simp
        next
          case (Suc j)
          with k a show ?thesis by simp
        qed
      qed
    qed
    with False Cons show ?thesis by simp
  qed
qed

lemma first_pos_Some:
  "first_pos P s = Some k \<longleftrightarrow> (k \<le> length s \<and> P (drop k s) \<and> (\<forall>j<k. \<not> P (drop j s)))"
proof (induction s arbitrary: k)
  case Nil
  then show ?case by auto
next
  case (Cons c cs)
  show ?case
  proof (cases "P (c # cs)")
    case True
    show ?thesis
    proof (cases k)
      case 0
      with True show ?thesis by simp
    next
      case (Suc j)
      with True show ?thesis by auto
    qed
  next
    case False
    show ?thesis
    proof (cases k)
      case 0
      with False show ?thesis by simp
    next
      case (Suc j)
      have "(\<forall>i<Suc j. \<not> P (drop i (c # cs))) \<longleftrightarrow> (\<forall>i<j. \<not> P (drop i cs))"
      proof
        assume a: "\<forall>i<Suc j. \<not> P (drop i (c # cs))"
        show "\<forall>i<j. \<not> P (drop i cs)"
        proof (intro allI impI)
          fix i assume "i < j"
          then have "\<not> P (drop (Suc i) (c # cs))" using a by blast
          then show "\<not> P (drop i cs)" by simp
        qed
      next
        assume a: "\<forall>i<j. \<not> P (drop i cs)"
        show "\<forall>i<Suc j. \<not> P (drop i (c # cs))"
        proof (intro allI impI)
          fix i assume i: "i < Suc j"
          show "\<not> P (drop i (c # cs))"
          proof (cases i)
            case 0
            with False show ?thesis by simp
          next
            case (Suc i')
            with i a show ?thesis by simp
          qed
        qed
      qed
      with False Suc Cons [of j] show ?thesis by auto
    qed
  qed
qed

lemma first_pos_cong: "(\<And>t. P t = Q t) \<Longrightarrow> first_pos P s = first_pos Q s"
  by (induction s) simp_all

lemma search_from_first_pos:
  "search_from r i s = (case first_pos (\<lambda>t. m r t \<noteq> []) s of None \<Rightarrow> - 1 | Some k \<Rightarrow> int (i + k))"
  by (induction s arbitrary: i) (auto split: option.splits)

lemma js_includes_first_pos: "(\<not> js_includes s l) \<longleftrightarrow> first_pos (prefix l) s = None"
  by (induction s) auto

subsection \<open>Context placement\<close>

lemma contextPattern_at: "(m contextPattern t \<noteq> []) = list_ex (\<lambda>k. prefix k t) context_keywords"
  by (simp add: contextPattern_def context_keywords_def)

lemma routesPattern_at: "(m routesPattern t \<noteq> []) = list_ex (\<lambda>k. prefix k t) [''<Routes>'']"
  by (simp add: routesPattern_def)

lemma js_search_context:
  "js_search c contextPattern = (case first_occurrence context_keywords c of None \<Rightarrow> - 1 | Some k \<Rightarrow> int k)"
  unfolding js_search_def first_occurrence_def search_from_first_pos
  using first_pos_cong [of "\<lambda>t. m contextPattern t \<noteq> []" "\<lambda>t. list_ex (\<lambda>k. prefix k t) context_keywords" c]
  by (simp add: contextPattern_at split: option.splits)

lemma js_search_routes:
  "js_search c routesPattern = (case first_occurrence [''<Routes>''] c of None \<Rightarrow> - 1 | Some k \<Rightarrow> int k)"
  unfolding js_search_def first_occurrence_def search_from_first_pos
  using first_pos_cong [of "\<lambda>t. m routesPattern t \<noteq> []" "\<lambda>t. list_ex (\<lambda>k. prefix k t) [''<Routes>'']" c]
  by (simp add: routesPattern_at split: option.splits)

lemma first_pos_disj:
  "first_pos (\<lambda>t. P t \<or> Q t) s = None \<longleftrightarrow> first_pos P s = None \<and> first_pos Q s = None"
  by (induction s) auto

lemma includes_context:
  "(js_includes c ''createContext'' \<or> js_includes c ''useContext'' \<or> js_includes c ''.Provider'')
     \<longleftrightarrow> first_occurrence context_keywords c \<noteq> None"
proof -
  have "first_occurrence context_keywords c
      = first_pos (\<lambda>t. prefix ''createContext'' t \<or> (prefix ''useContext'' t \<or> prefix ''.Provider'' t)) c"
    unfolding first_occurrence_def by (rule first_pos_cong) (simp add: context_keywords_def)
  then have "first_occurrence context_keywords c = None \<longleftrightarrow>
      \<not> js_includes c ''createContext'' \<and> \<not> js_includes c ''useContext'' \<and> \<not> js_includes c ''.Provider''"
    by (simp only: first_pos_disj js_includes_first_pos)
  then show ?thesis by auto
qed

lemma includes_routes: "js_includes c ''<Routes>'' \<longleftrightarrow> first_occurrence [''<Routes>''] c \<noteq> None"
proof -
  have "first_occurrence [''<Routes>''] c = first_pos (prefix ''<Routes>'') c"
    unfolding first_occurrence_def by (rule first_pos_cong) simp
  then have "first_occurrence [''<Routes>''] c = None \<longleftrightarrow> \<not> js_includes c ''<Routes>''"
    by (simp only: js_includes_first_pos)
  then show ?thesis by auto
qed

text \<open>
  Claim C4. For a text that contains a context keyword (\<^verbatim>\<open>createContext\<close>,
  \<^verbatim>\<open>useContext\<close> or \<^verbatim>\<open>.Provider\<close>) and the marker
  \<^verbatim>\<open><Routes>\<close>, the context-placement rule of either variant emits its one
  high-severity issue exactly when the first occurrence of a context keyword lies strictly
  before the first occurrence of the marker; later occurrences play no part.
\<close>

theorem context_placement_compares_first_occurrences:
  assumes "js_includes c ''createContext'' \<or> js_includes c ''useContext'' \<or> js_includes c ''.Provider''"
    and "js_includes c ''<Routes>''"
  shows "\<exists>i j. first_occurrence context_keywords c = Some i
           \<and> first_occurrence [''<Routes>''] c = Some j
           \<and> ra_checkContextPlacement c p (fi, recs) =
               (if i < j
                then (fi @ [context_issue p],
                      recs @ [file_rec p ''Move context provider below shell routing but above module routes''])
                else (fi, recs))
           \<and> rd_checkContextPlacement c p fi =
               (if i < j
                then fi @ [(context_issue p)\<lparr>i_fix := Some ''Move context provider below shell routing but above module routes''\<rparr>]
                else fi)"
proof -
  from assms(1) obtain i where i: "first_occurrence context_keywords c = Some i"
    using includes_context [of c] by auto
  from assms(2) obtain j where j: "first_occurrence [''<Routes>''] c = Some j"
    using includes_routes [of c] by auto
  have sc: "js_search c contextPattern = int i" using i by (simp add: js_search_context)
  have sr: "js_search c routesPattern = int j" using j by (simp add: js_search_routes)
  have tc: "js_test contextPattern c" using sc by (simp add: js_test_def js_search_def)
  have tr: "js_test routesPattern c" using sr by (simp add: js_test_def js_search_def)
  have "ra_checkContextPlacement c p (fi, recs) =
               (if i < j
                then (fi @ [context_issue p],
                      recs @ [file_rec p ''Move context provider below shell routing but above module routes''])
                else (fi, recs))"
    by (simp add: ra_checkContextPlacement_def tc tr sc sr context_issue_def)
  moreover have "rd_checkContextPlacement c p fi =
               (if i < j
                then fi @ [(context_issue p)\<lparr>i_fix := Some ''Move context provider below shell routing but above module routes''\<rparr>]
                else fi)"
    by (simp add: rd_checkContextPlacement_def tc tr sc sr context_issue_def)
  ultimately show ?thesis using i j by simp
qed

text \<open>
  The rule at a text whose first context keyword comes after the first marker, with more
  keywords before the marker appears again: no issue.
\<close>

theorem context_placement_witness:
  "js_includes ''<Routes> useContext .Provider createContext <Routes>'' ''useContext''
   \<and> js_includes ''<Routes> useContext .Provider createContext <Routes>'' ''<Routes>''
   \<and> rd_checkContextPlacement ''<Routes> useContext .Provider createContext <Routes>'' ''AppRoutes.tsx'' [] = []
   \<and> ra_checkContextPlacement ''<Routes> useContext .Provider createContext <Routes>'' ''AppRoutes.tsx'' ([], []) = ([], [])"
  using context_placement_compares_first_occurrences
    [of "''<Routes> useContext .Provider createContext <Routes>''" "''AppRoutes.tsx''" "[]" "[]"]
  by (simp add: first_occurrence_def context_keywords_def)

subsection \<open>The relevance predicate\<close>

lemma js_match_truthy_iff: "js_match_truthy s r \<longleftrightarrow> (\<exists>k\<le>length s. m r (drop k s) \<noteq> [])"
proof -
  have "js_match_truthy s r \<longleftrightarrow> first_pos (\<lambda>t. m r t \<noteq> []) s \<noteq> None"
    by (simp add: js_match_truthy_def search_from_first_pos split: option.splits)
  also have "\<dots> \<longleftrightarrow> (\<exists>k\<le>length s. m r (drop k s) \<noteq> [])"
    using first_pos_None [of "\<lambda>t. m r t \<noteq> []" s] by auto
  finally show ?thesis .
qed

lemma ci_eq_letters:
  "ci_eq (CHR ''r'') c = (to_lower c = CHR ''r'')"
  "ci_eq (CHR ''R'') c = (to_lower c = CHR ''r'')"
  "ci_eq (CHR ''o'') c = (to_lower c = CHR ''o'')"
  "ci_eq (CHR ''u'') c = (to_lower c = CHR ''u'')"
  "ci_eq (CHR ''t'') c = (to_lower c = CHR ''t'')"
  "ci_eq (CHR ''e'') c = (to_lower c = CHR ''e'')"
  by (auto simp: ci_eq_def to_lower_def lower_letters_def upper_letters_def)

lemma ci_prefix_map:
  "(\<forall>p\<in>set l. \<forall>c. ci_eq p c = (to_lower c = to_lower p)) \<Longrightarrow>
   ci_prefix l t = prefix (map to_lower l) (map to_lower t)"
  by (induction l t rule: ci_prefix.induct) auto

lemma to_lower_route:
  "map to_lower ''route'' = ''route''" "map to_lower ''Route'' = ''route''"
  by (simp_all add: to_lower_def lower_letters_def upper_letters_def)

lemma ci_prefix_route:
  "ci_prefix ''route'' t = prefix ''route'' (map to_lower t)"
  "ci_prefix ''Route'' t = prefix ''route'' (map to_lower t)"
proof -
  have a: "\<forall>p\<in>set ''route''. \<forall>c. ci_eq p c = (to_lower c = to_lower p)"
    using to_lower_route(1) by (simp add: ci_eq_letters)
  have b: "\<forall>p\<in>set ''Route''. \<forall>c. ci_eq p c = (to_lower c = to_lower p)"
    using to_lower_route(2) by (simp add: ci_eq_letters)
  show "ci_prefix ''route'' t = prefix ''route'' (map to_lower t)"
    using ci_prefix_map [OF a, of t] by (simp only: to_lower_route)
  show "ci_prefix ''Route'' t = prefix ''route'' (map to_lower t)"
    using ci_prefix_map [OF b, of t] by (simp only: to_lower_route)
qed

lemma routeName_at: "(m routeNamePattern t \<noteq> []) = prefix ''route'' (map to_lower t)"
  by (simp add: routeNamePattern_def ci_prefix_route)

lemma sublist_positions: "sublist x s \<longleftrightarrow> (\<exists>k\<le>length s. prefix x (drop k s))"
proof
  assume "sublist x s"
  then obtain ps ss where s: "s = ps @ x @ ss" by (auto simp: sublist_def)
  then have "length ps \<le> length s \<and> prefix x (drop (length ps) s)" by simp
  then show "\<exists>k\<le>length s. prefix x (drop k s)" by blast
next
  assume "\<exists>k\<le>length s. prefix x (drop k s)"
  then obtain k zs where "drop k s = x @ zs" by (auto simp: prefix_def)
  then have "s = take k s @ x @ zs" by (metis append_take_drop_id)
  then show "sublist x s" unfolding sublist_def by blast
qed

lemma suffix_positions: "suffix x s \<longleftrightarrow> (\<exists>k\<le>length s. drop k s = x)"
proof
  assume "suffix x s"
  then obtain zs where s: "s = zs @ x" by (auto simp: suffix_def)
  then have "length zs \<le> length s \<and> drop (length zs) s = x" by simp
  then show "\<exists>k\<le>length s. drop k s = x" by blast
next
  assume "\<exists>k\<le>length s. drop k s = x"
  then show "suffix x s" using suffix_drop by blast
qed

lemma routeName_truthy: "js_match_truthy name routeNamePattern = sublist ''route'' (map to_lower name)"
  by (simp add: js_match_truthy_iff routeName_at sublist_positions drop_map)

lemma extension_at:
  "(m extensionPattern t \<noteq> []) = (t = ''.ts'' \<or> t = ''.tsx'' \<or> t = ''.js'' \<or> t = ''.jsx'')"
  by (auto simp: extensionPattern_def prefix_def split: if_splits)

lemma routesSuffix_at:
  "(m routesSuffixPattern t \<noteq> []) = (t = ''Routes.ts'' \<or> t = ''Routes.tsx'')"
  by (auto simp: routesSuffixPattern_def prefix_def split: if_splits)

lemma extension_truthy:
  "js_match_truthy name extensionPattern =
     (suffix ''.js'' name \<or> suffix ''.jsx'' name \<or> suffix ''.ts'' name \<or> suffix ''.tsx'' name)"
  by (auto simp: js_match_truthy_iff extension_at suffix_positions)

lemma routesSuffix_truthy:
  "js_match_truthy name routesSuffixPattern = (suffix ''Routes.ts'' name \<or> suffix ''Routes.tsx'' name)"
  by (auto simp: js_match_truthy_iff routesSuffix_at suffix_positions)

lemma isRelevantFile_refines: "isRelevantFile name = relevance_predicate name"
  by (simp add: isRelevantFile_def relevance_predicate_def extension_truthy routesSuffix_truthy
      routeName_truthy)


subsection \<open>The skip list\<close>

lemma skipDirs_not_relevant: "shouldSkipDirectory name \<Longrightarrow> \<not> isRelevantFile name"
  unfolding isRelevantFile_refines relevance_predicate_def
  by (auto simp: shouldSkipDirectory_def skipDirs_def suffix_def Cons_eq_append_conv)

lemma prune_Dir: "prune names (Dir x) = Dir (map_option (prune_entries names) x)"
  by (cases x) simp_all

lemma isDirectory_prune [simp]: "isDirectory (prune names n) = isDirectory n"
  by (cases n) (simp_all add: prune_Dir)

lemma prune_File: "\<not> isDirectory n \<Longrightarrow> prune names n = n"
  by (cases n) simp_all

lemma ra_prune:
  "ra_findRouteFiles st dir n = ra_findRouteFiles st dir (prune skipDirs n)"
  "ra_entries st dir files = ra_entries st dir (prune_entries skipDirs files)"
proof (induction st dir n and st dir files rule: ra_findRouteFiles_ra_entries.induct)
  case (5 st dir name n files)
  define X where "X =
    (if isDirectory n \<and> \<not> shouldSkipDirectory name then
       ra_findRouteFiles st (path_join dir name) n
     else if isRelevantFile name then
       ra_analyzeRouteFile
         (st\<lparr>fileStats := (fileStats st)\<lparr>total := total (fileStats st) + 1\<rparr>\<rparr>)
         (path_join dir name) n
     else st)"
  have ih2: "ra_entries X dir files = ra_entries X dir (prune_entries skipDirs files)"
    unfolding X_def by (rule "5.IH"(2))
  have lhs: "ra_entries st dir ((name, n) # files) = ra_entries X dir files"
    unfolding X_def by simp
  show ?case
  proof (cases "isDirectory n")
    case True
    show ?thesis
    proof (cases "shouldSkipDirectory name")
      case True
      with \<open>isDirectory n\<close> have "X = st" unfolding X_def by (simp add: skipDirs_not_relevant)
      moreover from True have "name \<in> set skipDirs" by (simp add: shouldSkipDirectory_def)
      ultimately show ?thesis using ih2 lhs \<open>isDirectory n\<close> by simp
    next
      case False
      with True have ih1: "ra_findRouteFiles st (path_join dir name) n
          = ra_findRouteFiles st (path_join dir name) (prune skipDirs n)"
        by (intro "5.IH"(1)) simp
      from False True have "X = ra_findRouteFiles st (path_join dir name) n"
        unfolding X_def by simp
      moreover from False have "name \<notin> set skipDirs" by (simp add: shouldSkipDirectory_def)
      ultimately have "ra_entries st dir (prune_entries skipDirs ((name, n) # files))
          = ra_entries X dir (prune_entries skipDirs files)"
        using ih1 False True by simp
      with ih2 lhs show ?thesis by simp
    qed
  next
    case False
    then have "prune skipDirs n = n" by (rule prune_File)
    with False have "ra_entries st dir (prune_entries skipDirs ((name, n) # files))
        = ra_entries X dir (prune_entries skipDirs files)"
      unfolding X_def by simp
    with ih2 lhs show ?thesis by simp
  qed
qed simp_all

lemma rd_prune:
  "rd_findRouteFiles st dir n = rd_findRouteFiles st dir (prune skipDirs n)"
  "rd_entries st dir files = rd_entries st dir (prune_entries skipDirs files)"
proof (induction st dir n and st dir files rule: rd_findRouteFiles_rd_entries.induct)
  case (5 st dir name n files)
  define X where "X =
    (if isDirectory n \<and> \<not> shouldSkipDirectory name then
       rd_findRouteFiles st (path_join dir name) n
     else if isRelevantFile name then
       rd_analyzeRouteFile st (path_join dir name) n
     else st)"
  have ih2: "rd_entries X dir files = rd_entries X dir (prune_entries skipDirs files)"
    unfolding X_def by (rule "5.IH"(2))
  have lhs: "rd_entries st dir ((name, n) # files) = rd_entries X dir files"
    unfolding X_def by simp
  show ?case
  proof (cases "isDirectory n")
    case True
    show ?thesis
    proof (cases "shouldSkipDirectory name")
      case True
      with \<open>isDirectory n\<close> have "X = st" unfolding X_def by (simp add: skipDirs_not_relevant)
      moreover from True have "name \<in> set skipDirs" by (simp add: shouldSkipDirectory_def)
      ultimately show ?thesis using ih2 lhs \<open>isDirectory n\<close> by simp
    next
      case False
      with True have ih1: "rd_findRouteFiles st (path_join dir name) n
          = rd_findRouteFiles st (path_join dir name) (prune skipDirs n)"
        by (intro "5.IH"(1)) simp
      from False True have "X = rd_findRouteFiles st (path_join dir name) n"
        unfolding X_def by simp
      moreover from False have "name \<notin> set skipDirs" by (simp add: shouldSkipDirectory_def)
      ultimately have "rd_entries st dir (prune_entries skipDirs ((name, n) # files))
          = rd_entries X dir (prune_entries skipDirs files)"
        using ih1 False True by simp
      with ih2 lhs show ?thesis by simp
    qed
  next
    case False
    then have "prune skipDirs n = n" by (rule prune_File)
    with False have "rd_entries st dir (prune_entries skipDirs ((name, n) # files))
        = rd_entries X dir (prune_entries skipDirs files)"
      unfolding X_def by simp
    with ih2 lhs show ?thesis by simp
  qed
qed simp_all

lemma skipped_entry_passed_over:
  "name \<in> set skipDirs \<Longrightarrow>
   ra_entries st dir ((name, Dir x) # files) = ra_entries st dir files
   \<and> rd_entries st' dir ((name, Dir x) # files) = rd_entries st' dir files"
  using skipDirs_not_relevant [of name] by (simp add: shouldSkipDirectory_def)

text \<open>
  The list is applied to the entries met during the walk, never to the target of the run: a
  target directory that is itself called \<^verbatim>\<open>build\<close> is walked, by both variants.
\<close>

lemma target_named_build_is_walked:
  "map_option (\<lambda>a. analyzed (fileStats a)) (analyzer (ra_main build_env [''/work/build''])) = Some 1
   \<and> map_option (\<lambda>a. analyzed (fileStats a)) (analyzer (rd_main build_env [''/work/build''])) = Some 1"
  by (simp add: ra_main_def rd_main_def build_env_def default_options_def ra_run_def rd_run_def
      new_RouteAnalyzer_def new_RouteDebugger_def generateRecommendations_def
      mapDependencies_def shouldSkipDirectory_def skipDirs_def ra_analyzeRouteFile_def
      rd_analyzeRouteFile_def Let_def outputPath_def relevant_routes_js split: prod.split)

text \<open>
  Claim C8. The skip list is \<^verbatim>\<open>node_modules\<close>, \<^verbatim>\<open>.git\<close>, \<^verbatim>\<open>dist\<close>,
  \<^verbatim>\<open>build\<close>, \<^verbatim>\<open>coverage\<close> and \<^verbatim>\<open>.next\<close>. A run of either variant
  over a tree is the run over the tree from which every directory entry met below the target
  and bearing one of these six names has been removed with all it holds, at every depth:
  nothing under such a directory is read, counted or analyzed, whether its name is relevant
  or not. In particular a directory entry with one of the six names is passed over whatever
  it holds. (The target directory itself is walked whatever it is called.)
\<close>

theorem skipped_directories_are_never_entered:
  "ra_run st root
     = ra_run st (prune [''node_modules'', ''.git'', ''dist'', ''build'', ''coverage'', ''.next''] root)
   \<and> rd_run st' root
     = rd_run st' (prune [''node_modules'', ''.git'', ''dist'', ''build'', ''coverage'', ''.next''] root)
   \<and> list_all
        (\<lambda>name. ra_entries st dir ((name, Dir x) # files) = ra_entries st dir files
               \<and> rd_entries st' dir ((name, Dir x) # files) = rd_entries st' dir files)
        [''node_modules'', ''.git'', ''dist'', ''build'', ''coverage'', ''.next'']"
proof -
  have l: "[''node_modules'', ''.git'', ''dist'', ''build'', ''coverage'', ''.next''] = skipDirs"
    by (simp add: skipDirs_def)
  have a: "ra_run st root = ra_run st (prune skipDirs root)"
    unfolding ra_run_def by (rule ra_prune(1))
  have b: "rd_run st' root = rd_run st' (prune skipDirs root)"
    unfolding rd_run_def using rd_prune(1) [of st' "[]" root] by simp
  have c: "list_all
        (\<lambda>name. ra_entries st dir ((name, Dir x) # files) = ra_entries st dir files
               \<and> rd_entries st' dir ((name, Dir x) # files) = rd_entries st' dir files)
        skipDirs"
    unfolding list_all_iff using skipped_entry_passed_over by blast
  from a b c show ?thesis unfolding l by blast
qed

subsection \<open>Dynamic route generation\<close>

lemma scan_empty_iff: "scan r 0 s = [] \<longleftrightarrow> first_pos (\<lambda>t. m r t \<noteq> []) s = None"
  by (induction s) (auto simp: Let_def split: list.splits)

lemma js_match_g_None: "js_match_g s r = None \<longleftrightarrow> (\<forall>k\<le>length s. m r (drop k s) = [])"
proof -
  have "js_match_g s r = None \<longleftrightarrow> scan r 0 s = []"
    by (simp add: js_match_g_def split: list.splits)
  also have "\<dots> \<longleftrightarrow> first_pos (\<lambda>t. m r t \<noteq> []) s = None"
    by (rule scan_empty_iff)
  also have "\<dots> \<longleftrightarrow> (\<forall>k\<le>length s. m r (drop k s) = [])"
    using first_pos_None [of "\<lambda>t. m r t \<noteq> []" s] by simp
  finally show ?thesis .
qed

lemma js_includes_iff: "js_includes s l \<longleftrightarrow> (\<exists>k\<le>length s. prefix l (drop k s))"
  using js_includes_first_pos [of s l] first_pos_None [of "prefix l" s] by auto

lemma routesMap_literal:
  "prefix ''routes.map(({ path, Component })'' t \<Longrightarrow> m routesMapPattern t \<noteq> []"
  by (auto simp: prefix_def routesMapPattern_def is_space_def)

lemma queryClient_literal:
  "prefix ''new QueryClient('' t \<Longrightarrow> m queryClientPattern t \<noteq> []"
  by (auto simp: prefix_def queryClientPattern_def is_space_def)

lemma routesMap_found:
  assumes "js_includes c ''routes.map(({ path, Component })''"
  shows "\<exists>x xs. js_match_g c routesMapPattern = Some (x # xs)"
proof -
  from assms obtain k where "k \<le> length c" "prefix ''routes.map(({ path, Component })'' (drop k c)"
    by (auto simp: js_includes_iff)
  then have "\<not> (\<forall>k\<le>length c. m routesMapPattern (drop k c) = [])"
    using routesMap_literal by blast
  then have "js_match_g c routesMapPattern \<noteq> None" using js_match_g_None by blast
  then show ?thesis by (auto simp: js_match_g_def split: list.splits)
qed

lemma ra_check_snd:
  "snd (ra_checkDynamicRouteGeneration c p acc) = snd acc @ snd (ra_checkDynamicRouteGeneration c p ([], []))"
  "snd (ra_checkQueryClientCreation c p acc) = snd acc @ snd (ra_checkQueryClientCreation c p ([], []))"
  "snd (ra_checkContextPlacement c p acc) = snd acc @ snd (ra_checkContextPlacement c p ([], []))"
  "snd (ra_checkBlockedNavigation c p acc) = snd acc @ snd (ra_checkBlockedNavigation c p ([], []))"
  "snd (ra_checkActivityContext c p acc) = snd acc @ snd (ra_checkActivityContext c p ([], []))"
  "snd (ra_checkMemoization c p acc) = snd acc @ snd (ra_checkMemoization c p ([], []))"
  "snd (ra_checkAsyncWrapper c p acc) = snd acc @ snd (ra_checkAsyncWrapper c p ([], []))"
  "snd (ra_checkShellPatterns c p acc) = snd acc @ snd (ra_checkShellPatterns c p ([], []))"
  "snd (ra_checkPerformancePatterns c p acc) = snd acc @ snd (ra_checkPerformancePatterns c p ([], []))"
  by (cases acc; simp add: ra_check_defs Let_def split: option.split)+

lemma ra_rules_snd:
  "snd (ra_rules c p acc) = snd acc @
     snd (ra_checkDynamicRouteGeneration c p ([], [])) @
     snd (ra_checkQueryClientCreation c p ([], [])) @
     snd (ra_checkContextPlacement c p ([], [])) @
     snd (ra_checkBlockedNavigation c p ([], [])) @
     snd (ra_checkActivityContext c p ([], [])) @
     snd (ra_checkMemoization c p ([], [])) @
     snd (ra_checkAsyncWrapper c p ([], [])) @
     snd (ra_checkShellPatterns c p ([], [])) @
     snd (ra_checkPerformancePatterns c p ([], []))"
  unfolding ra_rules_def
  apply (subst ra_check_snd(9))
  apply (subst ra_check_snd(8))
  apply (subst ra_check_snd(7))
  apply (subst ra_check_snd(6))
  apply (subst ra_check_snd(5))
  apply (subst ra_check_snd(4))
  apply (subst ra_check_snd(3))
  apply (subst ra_check_snd(2))
  apply (subst ra_check_snd(1))
  apply simp
  done

lemma filter_none: "list_all (\<lambda>i. \<not> P i) xs \<Longrightarrow> filter P xs = []"
  by (induction xs) simp_all

lemma other_rules_not_dynamic:
  "list_all (\<lambda>i. i_type i \<noteq> ''dynamic-route-generation'') (rd_checkQueryClientCreation c p [])"
  "list_all (\<lambda>i. i_type i \<noteq> ''dynamic-route-generation'') (rd_checkContextPlacement c p [])"
  "list_all (\<lambda>i. i_type i \<noteq> ''dynamic-route-generation'') (rd_checkBlockedNavigation c p [])"
  "list_all (\<lambda>i. i_type i \<noteq> ''dynamic-route-generation'') (rd_checkActivityContext c p [])"
  "list_all (\<lambda>i. i_type i \<noteq> ''dynamic-route-generation'') (rd_checkMemoization c p [])"
  "list_all (\<lambda>i. i_type i \<noteq> ''dynamic-route-generation'') (rd_checkAsyncWrapper c p [])"
  "list_all (\<lambda>i. i_type i \<noteq> ''dynamic-route-generation'') (rd_checkShellPatterns c p [])"
  "list_all (\<lambda>i. i_type i \<noteq> ''dynamic-route-generation'') (rd_checkPerformancePatterns c p [])"
  by (simp_all add: rd_check_defs rd_patterns_def Let_def split: option.split)

lemma other_rules_types:
  "filter (\<lambda>i. i_type i = ''dynamic-route-generation'') (rd_checkQueryClientCreation c p []) = []"
  "filter (\<lambda>i. i_type i = ''dynamic-route-generation'') (rd_checkContextPlacement c p []) = []"
  "filter (\<lambda>i. i_type i = ''dynamic-route-generation'') (rd_checkBlockedNavigation c p []) = []"
  "filter (\<lambda>i. i_type i = ''dynamic-route-generation'') (rd_checkActivityContext c p []) = []"
  "filter (\<lambda>i. i_type i = ''dynamic-route-generation'') (rd_checkMemoization c p []) = []"
  "filter (\<lambda>i. i_type i = ''dynamic-route-generation'') (rd_checkAsyncWrapper c p []) = []"
  "filter (\<lambda>i. i_type i = ''dynamic-route-generation'') (rd_checkShellPatterns c p []) = []"
  "filter (\<lambda>i. i_type i = ''dynamic-route-generation'') (rd_checkPerformancePatterns c p []) = []"
  by (rule filter_none, rule other_rules_not_dynamic)+

lemma other_rules_recs:
  "file_rec p wrap_in_useMemo \<notin> set (snd (ra_checkQueryClientCreation c p ([], [])))"
  "file_rec p wrap_in_useMemo \<notin> set (snd (ra_checkContextPlacement c p ([], [])))"
  "file_rec p wrap_in_useMemo \<notin> set (snd (ra_checkBlockedNavigation c p ([], [])))"
  "file_rec p wrap_in_useMemo \<notin> set (snd (ra_checkActivityContext c p ([], [])))"
  "file_rec p wrap_in_useMemo \<notin> set (snd (ra_checkMemoization c p ([], [])))"
  "file_rec p wrap_in_useMemo \<notin> set (snd (ra_checkAsyncWrapper c p ([], [])))"
  "file_rec p wrap_in_useMemo \<notin> set (snd (ra_checkShellPatterns c p ([], [])))"
  "file_rec p wrap_in_useMemo \<notin> set (snd (ra_checkPerformancePatterns c p ([], [])))"
  by (auto simp: ra_check_defs file_rec_def wrap_in_useMemo_def Let_def split: option.split)

lemma strip_fix_type: "i_type (strip_fix i) = i_type i"
  by (simp add: strip_fix_def)

lemma filter_strip_fix:
  "filter (\<lambda>i. i_type i = ty) (map strip_fix xs) = map strip_fix (filter (\<lambda>i. i_type i = ty) xs)"
  by (induction xs) (simp_all add: strip_fix_type)

text \<open>
  Claim C3, as amended. For a text that contains
  \<^verbatim>\<open>routes.map(({ path, Component })\<close> the nine rules of either variant emit
  exactly one issue of type \<^verbatim>\<open>dynamic-route-generation\<close>, of high severity.
  RouteAnalyzer adds the recommendation to wrap the routes array in \<^verbatim>\<open>useMemo\<close>
  exactly when \<^verbatim>\<open>useMemo\<close> is absent from the text. RouteDebugger attaches that
  advice to the issue as its fix text, whether \<^verbatim>\<open>useMemo\<close> is present or not, and
  adds no recommendation while it analyzes a file.
\<close>

theorem dynamic_route_generation_rule:
  assumes "js_includes c ''routes.map(({ path, Component })''"
  shows "\<exists>pat.
      filter (\<lambda>i. i_type i = ''dynamic-route-generation'') (fst (ra_rules c p ([], recs)))
        = [dynamic_issue p pat]
    \<and> (file_rec p wrap_in_useMemo \<in> set (snd (ra_rules c p ([], []))) \<longleftrightarrow> \<not> js_includes c ''useMemo'')
    \<and> filter (\<lambda>i. i_type i = ''dynamic-route-generation'') (rd_rules c p [])
        = [(dynamic_issue p pat)\<lparr>i_fix := Some wrap_in_useMemo\<rparr>]
    \<and> recommendations (rd_analyzeRouteFile st p (File (Some c))) = recommendations st"
proof -
  from routesMap_found [OF assms] obtain x xs where
    mt: "js_match_g c routesMapPattern = Some (x # xs)" by blast
  have rd1: "rd_checkDynamicRouteGeneration c p [] = [(dynamic_issue p x)\<lparr>i_fix := Some wrap_in_useMemo\<rparr>]"
    by (simp add: rd_checkDynamicRouteGeneration_def mt dynamic_issue_def wrap_in_useMemo_def)
  have rd: "filter (\<lambda>i. i_type i = ''dynamic-route-generation'') (rd_fileIssues c p)
      = [(dynamic_issue p x)\<lparr>i_fix := Some wrap_in_useMemo\<rparr>]"
    unfolding rd_fileIssues_def by (simp add: other_rules_types rd1 dynamic_issue_def)
  have a: "filter (\<lambda>i. i_type i = ''dynamic-route-generation'') (fst (ra_rules c p ([], recs)))
      = [dynamic_issue p x]"
    by (simp add: ra_rules_fst filter_strip_fix rd) (simp add: strip_fix_def dynamic_issue_def)
  have ra1: "snd (ra_checkDynamicRouteGeneration c p ([], []))
      = (if \<not> js_includes c ''useMemo'' then [file_rec p wrap_in_useMemo] else [])"
    by (simp add: ra_checkDynamicRouteGeneration_def mt wrap_in_useMemo_def)
  have b: "file_rec p wrap_in_useMemo \<in> set (snd (ra_rules c p ([], []))) \<longleftrightarrow> \<not> js_includes c ''useMemo''"
    by (simp add: ra_rules_snd other_rules_recs ra1)
  have c: "filter (\<lambda>i. i_type i = ''dynamic-route-generation'') (rd_rules c p [])
      = [(dynamic_issue p x)\<lparr>i_fix := Some wrap_in_useMemo\<rparr>]"
    by (simp add: rd_rules_eq rd)
  have d: "recommendations (rd_analyzeRouteFile st p (File (Some c))) = recommendations st"
    by (simp add: rd_analyzeRouteFile_def Let_def)
  from a b c d show ?thesis by blast
qed

lemmas pattern_defs =
  routesMapPattern_def queryClientPattern_def contextPattern_def routesPattern_def
  expensivePattern_def asyncWrapperPattern_def consoleLogPattern_def debuggerPattern_def
  jsonClonePattern_def newQueryClientPattern_def reactRouterPattern_def shellPattern_def

lemmas js_defs = js_match_g_def js_test_def js_search_def js_match_truthy_def is_space_def

text \<open>The amended claim at a text with the pattern and without \<^verbatim>\<open>useMemo\<close>.\<close>

theorem dynamic_route_generation_rule_witness:
  "js_includes ''const r = routes.map(({ path, Component }) => 1)'' ''routes.map(({ path, Component })''
   \<and> (\<exists>pat.
      filter (\<lambda>i. i_type i = ''dynamic-route-generation'')
        (fst (ra_rules ''const r = routes.map(({ path, Component }) => 1)'' ''AppRoutes.tsx'' ([], [])))
        = [dynamic_issue ''AppRoutes.tsx'' pat]
      \<and> filter (\<lambda>i. i_type i = ''dynamic-route-generation'')
        (rd_rules ''const r = routes.map(({ path, Component }) => 1)'' ''AppRoutes.tsx'' [])
        = [(dynamic_issue ''AppRoutes.tsx'' pat)\<lparr>i_fix := Some wrap_in_useMemo\<rparr>])
   \<and> file_rec ''AppRoutes.tsx'' wrap_in_useMemo
        \<in> set (snd (ra_rules ''const r = routes.map(({ path, Component }) => 1)'' ''AppRoutes.tsx'' ([], [])))"
proof -
  have h: "js_includes ''const r = routes.map(({ path, Component }) => 1)'' ''routes.map(({ path, Component })''"
    by simp
  have n: "\<not> js_includes ''const r = routes.map(({ path, Component }) => 1)'' ''useMemo''"
    by simp
  show ?thesis
    using dynamic_route_generation_rule
      [OF h, of "''AppRoutes.tsx''" "[]" "new_RouteDebugger ''/work'' default_options"] h n
    by blast
qed

text \<open>
  Claim C3 as stated fails on RouteDebugger. A run over one file with the pattern and no
  \<^verbatim>\<open>useMemo\<close> ends with the global high-severity recommendation alone, and on a
  text with \<^verbatim>\<open>useMemo\<close> the advice to wrap the array is still attached.
\<close>

theorem extended_variant_recommendation_counterexample:
  "js_includes ''routes.map(({ path, Component })'' ''routes.map(({ path, Component })''
   \<and> \<not> js_includes ''routes.map(({ path, Component })'' ''useMemo''
   \<and> recommendations (rd_run (new_RouteDebugger ''/app'' default_options)
        (Dir (Some [(''routes.js'', File (Some ''routes.map(({ path, Component })''))])))
      = [global_rec ''high''
           ''Address high-severity issues immediately to prevent route unmounting''
           ''Review dynamic route generation and context placement patterns'']
   \<and> js_includes ''useMemo(() => routes.map(({ path, Component })'' ''useMemo''
   \<and> map i_fix (rd_checkDynamicRouteGeneration ''useMemo(() => routes.map(({ path, Component })'' ''routes.js'' [])
      = [Some ''Wrap routes array in useMemo to prevent recreation'']"
  by (simp add: rd_run_def new_RouteDebugger_def generateRecommendations_def mapDependencies_def
      relevant_routes_js shouldSkipDirectory_def skipDirs_def rd_analyzeRouteFile_def Let_def
      rd_rules_def rd_check_defs rd_patterns_def pattern_defs js_defs extractRouteConfig_def
      default_options_def path_join_def)

subsection \<open>Counting the matches of a global pattern\<close>

lemma scan_skip: "k \<le> length s \<Longrightarrow> scan r k s = scan r 0 (drop k s)"
proof (induction s arbitrary: k)
  case Nil
  then show ?case by simp
next
  case (Cons c cs)
  show ?case
  proof (cases k)
    case 0
    then show ?thesis by simp
  next
    case (Suc j)
    with Cons show ?thesis by simp
  qed
qed

lemma count_pos_drop:
  "k \<le> length s \<Longrightarrow> (\<forall>j<k. \<not> P (drop j s)) \<Longrightarrow> count_pos P s = count_pos P (drop k s)"
proof (induction s arbitrary: k)
  case Nil
  then show ?case by simp
next
  case (Cons c cs)
  show ?case
  proof (cases k)
    case 0
    then show ?thesis by simp
  next
    case (Suc i)
    from Cons.prems(2) Suc have h: "\<not> P (c # cs)" by (metis drop0 zero_less_Suc)
    have "\<forall>j<i. \<not> P (drop j cs)"
    proof (intro allI impI)
      fix j assume "j < i"
      then have "\<not> P (drop (Suc j) (c # cs))" using Cons.prems(2) Suc by blast
      then show "\<not> P (drop j cs)" by simp
    qed
    with Cons.IH [of i] Cons.prems(1) Suc h show ?thesis by simp
  qed
qed

lemma count_pos_cong:
  "all_pos (\<lambda>t. P t = Q t) s \<Longrightarrow> count_pos P s = count_pos Q s"
  by (induction s) simp_all

lemma count_pos_mono:
  "(\<And>t. P t \<Longrightarrow> Q t) \<Longrightarrow> count_pos P s \<le> count_pos Q s"
  by (induction s) (auto simp: le_Suc_eq)

lemma scan_count:
  assumes no_overlap:
    "\<And>t rest rs j. m r t = rest # rs \<Longrightarrow> 0 < j \<Longrightarrow> j < length t - length rest \<Longrightarrow> m r (drop j t) = []"
  shows "length (scan r 0 s) = count_pos (\<lambda>t. m r t \<noteq> []) s"
proof (induction s rule: length_induct)
  case (1 s)
  show ?case
  proof (cases s)
    case Nil
    then show ?thesis by simp
  next
    case (Cons c cs)
    show ?thesis
    proof (cases "m r (c # cs)")
      case Nil
      have "length cs < length s" using Cons by simp
      with 1 have "length (scan r 0 cs) = count_pos (\<lambda>t. m r t \<noteq> []) cs" by blast
      with Nil Cons show ?thesis by simp
    next
      case (Cons rest rs)
      define n where "n = length (c # cs) - length rest"
      have le: "n - 1 \<le> length cs" unfolding n_def by simp
      have free: "\<forall>j<n - 1. \<not> (m r (drop j cs) \<noteq> [])"
      proof (intro allI impI)
        fix j assume j: "j < n - 1"
        have "m r (drop (Suc j) (c # cs)) = []"
          by (rule no_overlap [OF Cons]) (use j in \<open>simp_all add: n_def\<close>)
        then show "\<not> (m r (drop j cs) \<noteq> [])" by simp
      qed
      have "length (drop (n - 1) cs) < length s" using \<open>s = c # cs\<close> by simp
      with 1 have ih: "length (scan r 0 (drop (n - 1) cs))
          = count_pos (\<lambda>t. m r t \<noteq> []) (drop (n - 1) cs)" by blast
      have "length (scan r 0 (c # cs)) = Suc (length (scan r (n - 1) cs))"
        using Cons by (simp add: n_def Let_def)
      also have "\<dots> = Suc (length (scan r 0 (drop (n - 1) cs)))"
        using scan_skip [OF le] by simp
      also have "\<dots> = Suc (count_pos (\<lambda>t. m r t \<noteq> []) (drop (n - 1) cs))"
        using ih by simp
      also have "\<dots> = Suc (count_pos (\<lambda>t. m r t \<noteq> []) cs)"
        using count_pos_drop [OF le free] by simp
      also have "\<dots> = count_pos (\<lambda>t. m r t \<noteq> []) (c # cs)"
        using Cons by simp
      finally show ?thesis using \<open>s = c # cs\<close> by simp
    qed
  qed
qed

subsection \<open>Query client construction\<close>

lemma star_rejecting:
  "(\<And>c cs. p c \<Longrightarrow> f (c # cs) = []) \<Longrightarrow> concat (map f (greedy_star p s)) = f (dropWhile p s)"
  by (induction s) simp_all

lemma plus_rejecting:
  "(\<And>c cs. p c \<Longrightarrow> f (c # cs) = []) \<Longrightarrow>
   concat (map f (greedy_plus p s)) = (case s of [] \<Rightarrow> [] | c # cs \<Rightarrow> if p c then f (dropWhile p cs) else [])"
  by (cases s) (simp_all add: star_rejecting)

lemma paren_rejects_space: "is_space c \<Longrightarrow> m (Lit ''('') (c # cs) = []"
  by (auto simp: is_space_def)

lemma queryClient_tail:
  "m (Seq SpaceStar (Lit ''('')) u =
     (if prefix ''('' (dropWhile is_space u) then [drop (length ''('') (dropWhile is_space u)] else [])"
  using star_rejecting [of is_space "m (Lit ''('')" u, OF paren_rejects_space] by simp

lemma queryClient_mid_rejects_space:
  "is_space c \<Longrightarrow> m (Seq (Lit ''QueryClient'') (Seq SpaceStar (Lit ''(''))) (c # cs) = []"
  by (auto simp: is_space_def)

lemma queryClient_closed_form:
  "m queryClientPattern t =
     (if prefix ''new'' t then
        (case drop (length ''new'') t of
           [] \<Rightarrow> []
         | c # cs \<Rightarrow>
             if is_space c then
               (let u = dropWhile is_space cs in
                if prefix ''QueryClient'' u then
                  (let v = dropWhile is_space (drop (length ''QueryClient'') u) in
                   if prefix ''('' v then [drop (length ''('') v] else [])
                else [])
             else [])
      else [])"
proof -
  have "m queryClientPattern t =
      (if prefix ''new'' t
       then concat (map (m (Seq (Lit ''QueryClient'') (Seq SpaceStar (Lit ''(''))))
                      (greedy_plus is_space (drop (length ''new'') t)))
       else [])"
    by (simp add: queryClientPattern_def)
  also have "concat (map (m (Seq (Lit ''QueryClient'') (Seq SpaceStar (Lit ''(''))))
                      (greedy_plus is_space (drop (length ''new'') t)))
      = (case drop (length ''new'') t of [] \<Rightarrow> []
         | c # cs \<Rightarrow> if is_space c
             then m (Seq (Lit ''QueryClient'') (Seq SpaceStar (Lit ''(''))) (dropWhile is_space cs)
             else [])"
    by (rule plus_rejecting) (rule queryClient_mid_rejects_space)
  finally show ?thesis
    using queryClient_tail by (simp add: Let_def split: list.split)
qed

lemma queryClient_shape:
  assumes "m queryClientPattern t \<noteq> []"
  shows "\<exists>w1 w2 rest. t = ''new'' @ w1 @ ''QueryClient'' @ w2 @ ''('' @ rest
          \<and> (\<forall>c\<in>set w1. is_space c) \<and> (\<forall>c\<in>set w2. is_space c)
          \<and> m queryClientPattern t = [rest]"
proof -
  from assms have p1: "prefix ''new'' t"
    by (simp add: queryClient_closed_form split: if_splits)
  then obtain t1 where t: "t = ''new'' @ t1" by (auto simp: prefix_def)
  from assms t obtain c cs where t1: "t1 = c # cs" and c: "is_space c"
    by (cases t1) (auto simp: queryClient_closed_form split: if_splits)
  define u where "u = dropWhile is_space cs"
  from assms t t1 c have p2: "prefix ''QueryClient'' u"
    by (simp add: queryClient_closed_form u_def Let_def split: if_splits)
  then obtain u1 where u: "u = ''QueryClient'' @ u1" by (auto simp: prefix_def)
  define v where "v = dropWhile is_space u1"
  from assms t t1 c u have p3: "prefix ''('' v"
    by (simp add: queryClient_closed_form u_def [symmetric] v_def Let_def split: if_splits)
  then obtain rest where v: "v = ''('' @ rest" by (auto simp: prefix_def)
  have res: "m queryClientPattern t = [rest]"
    using t t1 c u v by (simp add: queryClient_closed_form u_def [symmetric] v_def [symmetric] Let_def)
  have cs: "cs = takeWhile is_space cs @ u" by (simp add: u_def)
  have u1: "u1 = takeWhile is_space u1 @ v" by (simp add: v_def)
  have "t = ''new'' @ (c # takeWhile is_space cs) @ ''QueryClient'' @ takeWhile is_space u1 @ ''('' @ rest"
    using t t1 cs u u1 v by (metis append_Cons append_assoc)
  moreover have "\<forall>x\<in>set (c # takeWhile is_space cs). is_space x"
    using c by (auto dest: set_takeWhileD)
  moreover have "\<forall>x\<in>set (takeWhile is_space u1). is_space x"
    by (auto dest: set_takeWhileD)
  ultimately show ?thesis using res by blast
qed

lemma has_ne_sound:
  "\<not> has_ne x \<Longrightarrow> i < length x \<Longrightarrow> \<not> prefix ''ne'' (drop i x @ rest)"
proof (induction x arbitrary: i rule: has_ne.induct)
  case 1
  then show ?case by simp
next
  case (2 a)
  then show ?case by simp
next
  case (3 a b cs)
  show ?case
  proof (cases i)
    case 0
    with 3 show ?thesis by auto
  next
    case (Suc j)
    with 3 show ?thesis by simp
  qed
qed

lemma has_ne_other: "a \<noteq> CHR ''n'' \<Longrightarrow> has_ne (a # z) = has_ne z"
  by (cases z) simp_all

lemma has_ne_spaces: "\<forall>c\<in>set w. is_space c \<Longrightarrow> has_ne (w @ z) = has_ne z"
proof (induction w)
  case Nil
  then show ?case by simp
next
  case (Cons a w)
  then have "a \<noteq> CHR ''n''" by (auto simp: is_space_def)
  with Cons show ?case by (simp add: has_ne_other)
qed

lemma queryClient_inside:
  assumes "\<forall>c\<in>set w1. is_space c" and "\<forall>c\<in>set w2. is_space c"
  shows "\<not> has_ne (''ew'' @ w1 @ ''QueryClient'' @ w2 @ ''('')"
proof -
  have a: "has_ne (w2 @ ''('') = False"
    using has_ne_spaces [OF assms(2), of "''(''"] by simp
  have "has_ne (''QueryClient'' @ w2 @ ''('') = has_ne (CHR ''n'' # CHR ''t'' # w2 @ ''('')"
    by (simp add: has_ne_other)
  also have "\<dots> = has_ne (CHR ''t'' # w2 @ ''('')" by simp
  also have "\<dots> = False" using a by (simp add: has_ne_other)
  finally have b: "has_ne (''QueryClient'' @ w2 @ ''('') = False" .
  have "has_ne (''ew'' @ w1 @ ''QueryClient'' @ w2 @ ''('') = has_ne (w1 @ ''QueryClient'' @ w2 @ ''('')"
    by (simp add: has_ne_other)
  also have "\<dots> = False"
    using has_ne_spaces [OF assms(1), of "''QueryClient'' @ w2 @ ''(''"] b by simp
  finally show ?thesis by simp
qed

lemma queryClient_needs_ne: "m queryClientPattern t \<noteq> [] \<Longrightarrow> prefix ''ne'' t"
  by (auto simp: queryClient_closed_form prefix_def split: if_splits)

lemma queryClient_no_overlap:
  assumes mt: "m queryClientPattern t = rest # rs"
    and j: "0 < j" "j < length t - length rest"
  shows "m queryClientPattern (drop j t) = []"
proof -
  from mt have "m queryClientPattern t \<noteq> []" by simp
  from queryClient_shape [OF this] obtain w1 w2 rest' where
    t: "t = ''new'' @ w1 @ ''QueryClient'' @ w2 @ ''('' @ rest'"
    and w: "\<forall>c\<in>set w1. is_space c" "\<forall>c\<in>set w2. is_space c"
    and r: "m queryClientPattern t = [rest']" by blast
  from mt r have rest: "rest' = rest" by simp
  define x where "x = ''ew'' @ w1 @ ''QueryClient'' @ w2 @ ''(''"
  have tx: "t = CHR ''n'' # x @ rest" using t rest by (simp add: x_def)
  have nx: "\<not> has_ne x" unfolding x_def by (rule queryClient_inside [OF w])
  from j obtain i where i: "j = Suc i" by (cases j) simp_all
  have len: "i < length x" using j(2) i tx by simp
  have "drop j t = drop i x @ rest" using tx i len by simp
  with has_ne_sound [OF nx len, of rest] have "\<not> prefix ''ne'' (drop j t)" by simp
  with queryClient_needs_ne [of "drop j t"] show ?thesis by blast
qed

lemma queryClient_scan_count:
  "length (scan queryClientPattern 0 s) = count_pos (\<lambda>t. m queryClientPattern t \<noteq> []) s"
  by (rule scan_count) (rule queryClient_no_overlap)

lemma rd_queryClient_count:
  "rd_checkQueryClientCreation c p [] =
     (if count_pos (\<lambda>t. m queryClientPattern t \<noteq> []) c = 0 then []
      else [(queryClient_issue p (count_pos (\<lambda>t. m queryClientPattern t \<noteq> []) c))
              \<lparr>i_fix := Some ''Move QueryClient creation to module level or share instance''\<rparr>])"
proof (cases "scan queryClientPattern 0 c")
  case Nil
  then have "count_pos (\<lambda>t. m queryClientPattern t \<noteq> []) c = 0"
    using queryClient_scan_count [of c] by simp
  with Nil show ?thesis by (simp add: rd_checkQueryClientCreation_def js_match_g_def)
next
  case (Cons x xs)
  then have "count_pos (\<lambda>t. m queryClientPattern t \<noteq> []) c = Suc (length xs)"
    using queryClient_scan_count [of c] by simp
  with Cons show ?thesis
    by (simp add: rd_checkQueryClientCreation_def js_match_g_def queryClient_issue_def)
qed

lemma all_pos_eq:
  "all_pos (\<lambda>t. A t \<longrightarrow> B t) s \<Longrightarrow> (\<And>t. B t \<Longrightarrow> A t) \<Longrightarrow> all_pos (\<lambda>t. A t = B t) s"
  by (induction s) auto

lemma other_rules_not_queryClient:
  "list_all (\<lambda>i. i_type i \<noteq> ''query-client-creation'') (rd_checkDynamicRouteGeneration c p [])"
  "list_all (\<lambda>i. i_type i \<noteq> ''query-client-creation'') (rd_checkContextPlacement c p [])"
  "list_all (\<lambda>i. i_type i \<noteq> ''query-client-creation'') (rd_checkBlockedNavigation c p [])"
  "list_all (\<lambda>i. i_type i \<noteq> ''query-client-creation'') (rd_checkActivityContext c p [])"
  "list_all (\<lambda>i. i_type i \<noteq> ''query-client-creation'') (rd_checkMemoization c p [])"
  "list_all (\<lambda>i. i_type i \<noteq> ''query-client-creation'') (rd_checkAsyncWrapper c p [])"
  "list_all (\<lambda>i. i_type i \<noteq> ''query-client-creation'') (rd_checkShellPatterns c p [])"
  "list_all (\<lambda>i. i_type i \<noteq> ''query-client-creation'') (rd_checkPerformancePatterns c p [])"
  by (simp_all add: rd_check_defs rd_patterns_def Let_def split: option.split)

lemma other_rules_queryClient:
  "filter (\<lambda>i. i_type i = ''query-client-creation'') (rd_checkDynamicRouteGeneration c p []) = []"
  "filter (\<lambda>i. i_type i = ''query-client-creation'') (rd_checkContextPlacement c p []) = []"
  "filter (\<lambda>i. i_type i = ''query-client-creation'') (rd_checkBlockedNavigation c p []) = []"
  "filter (\<lambda>i. i_type i = ''query-client-creation'') (rd_checkActivityContext c p []) = []"
  "filter (\<lambda>i. i_type i = ''query-client-creation'') (rd_checkMemoization c p []) = []"
  "filter (\<lambda>i. i_type i = ''query-client-creation'') (rd_checkAsyncWrapper c p []) = []"
  "filter (\<lambda>i. i_type i = ''query-client-creation'') (rd_checkShellPatterns c p []) = []"
  "filter (\<lambda>i. i_type i = ''query-client-creation'') (rd_checkPerformancePatterns c p []) = []"
  by (rule filter_none, rule other_rules_not_queryClient)+

text \<open>
  Claim C5, as amended. For a text that contains \<^verbatim>\<open>new QueryClient(\<close> exactly
  twice and in which the pattern \<^verbatim>\<open>new\s+QueryClient\s*\(\<close> matches nowhere else
  (no construction written with other spacing), the nine rules of either variant emit exactly
  one issue of type \<^verbatim>\<open>query-client-creation\<close>, of medium severity, with count 2.
\<close>

theorem query_client_count_of_two:
  assumes twice: "count_pos (prefix ''new QueryClient('') c = 2"
    and no_variant: "all_pos (\<lambda>t. m queryClientPattern t \<noteq> [] \<longrightarrow> prefix ''new QueryClient('' t) c"
  shows "filter (\<lambda>i. i_type i = ''query-client-creation'') (rd_rules c p [])
           = [(queryClient_issue p 2)
                \<lparr>i_fix := Some ''Move QueryClient creation to module level or share instance''\<rparr>]
       \<and> filter (\<lambda>i. i_type i = ''query-client-creation'') (fst (ra_rules c p ([], recs)))
           = [queryClient_issue p 2]"
proof -
  have "all_pos (\<lambda>t. (m queryClientPattern t \<noteq> []) = prefix ''new QueryClient('' t) c"
    by (rule all_pos_eq [OF no_variant]) (rule queryClient_literal)
  then have "count_pos (\<lambda>t. m queryClientPattern t \<noteq> []) c = count_pos (prefix ''new QueryClient('') c"
    by (rule count_pos_cong)
  with twice have n: "count_pos (\<lambda>t. m queryClientPattern t \<noteq> []) c = 2" by simp
  have one: "rd_checkQueryClientCreation c p []
      = [(queryClient_issue p 2)
           \<lparr>i_fix := Some ''Move QueryClient creation to module level or share instance''\<rparr>]"
    by (simp add: rd_queryClient_count n)
  have rd: "filter (\<lambda>i. i_type i = ''query-client-creation'') (rd_fileIssues c p)
      = [(queryClient_issue p 2)
           \<lparr>i_fix := Some ''Move QueryClient creation to module level or share instance''\<rparr>]"
    unfolding rd_fileIssues_def by (simp add: other_rules_queryClient one queryClient_issue_def)
  have "filter (\<lambda>i. i_type i = ''query-client-creation'') (fst (ra_rules c p ([], recs)))
      = [queryClient_issue p 2]"
    by (simp add: ra_rules_fst filter_strip_fix rd) (simp add: strip_fix_def queryClient_issue_def)
  with rd show ?thesis by (simp add: rd_rules_eq)
qed

text \<open>The amended claim at a text with two constructions.\<close>

theorem query_client_count_of_two_witness:
  "count_pos (prefix ''new QueryClient('') ''a = new QueryClient(); b = new QueryClient();'' = 2
   \<and> all_pos (\<lambda>t. m queryClientPattern t \<noteq> [] \<longrightarrow> prefix ''new QueryClient('' t)
         ''a = new QueryClient(); b = new QueryClient();''
   \<and> filter (\<lambda>i. i_type i = ''query-client-creation'')
         (rd_rules ''a = new QueryClient(); b = new QueryClient();'' ''AppRoutes.tsx'' [])
       = [(queryClient_issue ''AppRoutes.tsx'' 2)
            \<lparr>i_fix := Some ''Move QueryClient creation to module level or share instance''\<rparr>]
   \<and> filter (\<lambda>i. i_type i = ''query-client-creation'')
         (fst (ra_rules ''a = new QueryClient(); b = new QueryClient();'' ''AppRoutes.tsx'' ([], [])))
       = [queryClient_issue ''AppRoutes.tsx'' 2]"
proof -
  have h1: "count_pos (prefix ''new QueryClient('') ''a = new QueryClient(); b = new QueryClient();'' = 2"
    by simp
  have h2: "all_pos (\<lambda>t. m queryClientPattern t \<noteq> [] \<longrightarrow> prefix ''new QueryClient('' t)
         ''a = new QueryClient(); b = new QueryClient();''"
    by (simp add: queryClientPattern_def is_space_def)
  show ?thesis
    using query_client_count_of_two [OF h1 h2, of "''AppRoutes.tsx''" "[]"] h1 h2 by simp
qed

text \<open>
  Claim C5 as stated fails: a text with the literal twice and a third construction written
  with two spaces has count 3.
\<close>

theorem query_client_count_counterexample:
  "count_pos (prefix ''new QueryClient('') ''new QueryClient(); new QueryClient(); new  QueryClient ()'' = 2
   \<and> map i_count (rd_checkQueryClientCreation
         ''new QueryClient(); new QueryClient(); new  QueryClient ()'' ''AppRoutes.tsx'' []) = [Some 3]
   \<and> map i_count (fst (ra_checkQueryClientCreation
         ''new QueryClient(); new QueryClient(); new  QueryClient ()'' ''AppRoutes.tsx'' ([], []))) = [Some 3]"
  by (simp add: rd_checkQueryClientCreation_def ra_checkQueryClientCreation_def js_match_g_def
      queryClientPattern_def is_space_def)

subsection \<open>A target path that does not exist\<close>

lemma ra_parse_result:
  "ra_parse e (opts, target) args =
     (opts\<lparr>o_help := o_help opts \<or> help_requested args,
           o_verbose := o_verbose opts \<or> ''--verbose'' \<in> set args \<or> ''-v'' \<in> set args,
           o_json := o_json opts \<or> ''--json'' \<in> set args \<or> ''-j'' \<in> set args\<rparr>,
      if positional args = [] then target else resolve e (last (positional args)))"
proof (induction args arbitrary: opts target)
  case Nil
  then show ?case by (simp add: positional_def help_requested_def)
next
  case (Cons arg args)
  show ?case
    by (simp add: Cons.IH) (auto simp: positional_def help_requested_def)
qed

text \<open>
  Claim C2, as amended, for RouteAnalyzer. When the last positional argument resolves to a
  path at which nothing exists, the process prints the path error to the error stream and
  exits with status 1 without constructing an analyzer, unless \<^verbatim>\<open>--help\<close> or
  \<^verbatim>\<open>-h\<close> is among the arguments: then it exits with status 0, prints no error and
  analyzes nothing.
\<close>

theorem missing_target_path:
  assumes "positional args \<noteq> []"
    and "fs e (resolve e (last (positional args))) = None"
  shows "ra_main e args =
     (if help_requested args
      then \<lparr>exit_status = 0, error_stream = [], analyzer = None\<rparr>
      else \<lparr>exit_status = 1,
            error_stream = [PathDoesNotExist (resolve e (last (positional args)))],
            analyzer = None\<rparr>)"
  using assms by (simp add: ra_main_def ra_parse_result default_options_def)

text \<open>The amended claim at \<^verbatim>\<open>--verbose /missing\<close>.\<close>

theorem missing_target_path_witness:
  "positional [''--verbose'', ''/missing''] \<noteq> []
   \<and> fs example_env (resolve example_env (last (positional [''--verbose'', ''/missing'']))) = None
   \<and> ra_main example_env [''--verbose'', ''/missing'']
       = \<lparr>exit_status = 1, error_stream = [PathDoesNotExist ''/missing''], analyzer = None\<rparr>"
proof -
  have h1: "positional [''--verbose'', ''/missing''] \<noteq> []"
    by (simp add: positional_def)
  have h2: "fs example_env (resolve example_env (last (positional [''--verbose'', ''/missing'']))) = None"
    by (simp add: positional_def example_env_def)
  show ?thesis
    using missing_target_path [OF h1 h2] h1 h2
    by (simp add: positional_def example_env_def help_requested_def)
qed

text \<open>
  Claim C2 as stated fails: with \<^verbatim>\<open>--help\<close> before a path that does not exist,
  both variants exit with status 0 and print no error.
\<close>

theorem help_before_path_check_counterexample:
  "fs example_env (resolve example_env ''/missing'') = None
   \<and> ra_main example_env [''--help'', ''/missing'']
       = \<lparr>exit_status = 0, error_stream = [], analyzer = None\<rparr>
   \<and> rd_main example_env [''--help'', ''/missing'']
       = \<lparr>exit_status = 0, error_stream = [], analyzer = None\<rparr>"
  by (simp add: ra_main_def rd_main_def example_env_def default_options_def)

text \<open>
  RouteDebugger takes a positional argument as the target only if it exists; given a path
  that does not exist it analyzes the working directory.
\<close>

lemma rd_main_ignores_missing_path:
  "exit_status (rd_main example_env [''/missing'']) = 0
   \<and> error_stream (rd_main example_env [''/missing'']) = []
   \<and> map_option (\<lambda>a. analyzed (fileStats a)) (analyzer (rd_main example_env [''/missing''])) = Some 1"
  by (simp add: rd_main_def example_env_def default_options_def rd_run_def new_RouteDebugger_def
      generateRecommendations_def mapDependencies_def shouldSkipDirectory_def skipDirs_def
      rd_analyzeRouteFile_def Let_def outputPath_def
      isRelevantFile_def js_match_truthy_def routeNamePattern_def
      routesSuffixPattern_def extensionPattern_def ci_eq_def)

end
